theory Spec2Isabelle
  imports Complex_Main "HOL-Library.Sublist" "HOL-Library.Multiset"
begin

section \<open>Strings: the Python operations used by the URL rewriting\<close>

text \<open>
  Python's \<^verbatim>\<open>str.replace(old, new)\<close>: scanning from the left, every non-overlapping
  occurrence of \<open>old\<close> is replaced by \<open>new\<close>. With an empty \<open>old\<close>, Python inserts
  \<open>new\<close> before every character and at the end.
\<close>

function str_replace :: "string \<Rightarrow> string \<Rightarrow> string \<Rightarrow> string" where
  "str_replace old new s =
     (if old = [] then new @ concat (map (\<lambda>c. c # new) s)
      else if s = [] then []
      else if prefix old s then new @ str_replace old new (drop (length old) s)
      else hd s # str_replace old new (tl s))"
  by pat_completeness auto
termination
  by (relation "measure (\<lambda>(old, new, s). length s)") auto

declare str_replace.simps [simp del]

text \<open>\<^verbatim>\<open>str.startswith\<close> is \<^const>\<open>prefix\<close>, \<^verbatim>\<open>str.endswith\<close> is \<^const>\<open>suffix\<close>.\<close>

definition GOOGLE_HOST_PREFIX :: string where
  "GOOGLE_HOST_PREFIX = ''https://generativelanguage.googleapis.com/''"

definition V1BETA :: string where
  "V1BETA = ''/v1beta''"

definition DOWNLOAD_SEGMENT :: string where
  "DOWNLOAD_SEGMENT = ''/download''"

text \<open>\<^verbatim>\<open>utils.parse_video_uri(video_uri, base_url)\<close>.\<close>

definition parse_video_uri :: "string \<Rightarrow> string \<Rightarrow> string" where
  "parse_video_uri video_uri base_url =
     (let relative_path =
            (if prefix GOOGLE_HOST_PREFIX video_uri
             then str_replace GOOGLE_HOST_PREFIX [] video_uri
             else video_uri);
          base_path =
            (if suffix V1BETA base_url
             then str_replace V1BETA DOWNLOAD_SEGMENT base_url
             else base_url)
      in base_path @ ''/'' @ relative_path)"

text \<open>
  The transform as the specification words it: strip the vendor host prefix if present,
  rewrite the trailing \<^verbatim>\<open>/v1beta\<close> segment of the base to \<^verbatim>\<open>/download\<close>, join with a
  slash.
\<close>

definition strip_host_prefix_spec :: "string \<Rightarrow> string" where
  "strip_host_prefix_spec video_uri =
     (if prefix GOOGLE_HOST_PREFIX video_uri
      then drop (length GOOGLE_HOST_PREFIX) video_uri
      else video_uri)"

definition rewrite_base_spec :: "string \<Rightarrow> string" where
  "rewrite_base_spec base_url =
     (if suffix V1BETA base_url
      then take (length base_url - length V1BETA) base_url @ DOWNLOAD_SEGMENT
      else base_url)"

definition parse_video_uri_spec :: "string \<Rightarrow> string \<Rightarrow> string" where
  "parse_video_uri_spec video_uri base_url =
     rewrite_base_spec base_url @ ''/'' @ strip_host_prefix_spec video_uri"

text \<open>
  Python's \<^verbatim>\<open>old in s\<close> on strings: \<open>old\<close> occurs somewhere in \<open>s\<close>.
\<close>

fun occurs_in :: "string \<Rightarrow> string \<Rightarrow> bool" where
  "occurs_in old [] = (old = [])"
| "occurs_in old (c # s) = (prefix old (c # s) \<or> occurs_in old s)"

text \<open>Decimal rendering of integers, as \<^verbatim>\<open>str(n)\<close> and f-strings produce it.\<close>

function str_nat :: "nat \<Rightarrow> string" where
  "str_nat n =
     (if n < 10 then [''0123456789'' ! n]
      else str_nat (n div 10) @ [''0123456789'' ! (n mod 10)])"
  by pat_completeness auto
termination
  by (relation "measure id") auto

declare str_nat.simps [simp del]

definition str_int :: "int \<Rightarrow> string" where
  "str_int i = (if i < 0 then ''-'' @ str_nat (nat (- i)) else str_nat (nat i))"

section \<open>Python values: parsed JSON and detail dictionaries\<close>

text \<open>
  What \<^verbatim>\<open>response.json()\<close> returns, and what the \<^verbatim>\<open>details\<close> dictionaries of the
  exceptions hold. A dictionary is an association list in insertion order with distinct
  keys.
\<close>

datatype json =
    JNull
  | JBool bool
  | JInt int
  | JFloat rat
  | JStr string
  | JArr "json list"
  | JObj "(string \<times> json) list"

type_synonym pydict = "(string \<times> json) list"

text \<open>Truth value of a Python object, as \<^verbatim>\<open>if x:\<close> tests it.\<close>

fun truthy :: "json \<Rightarrow> bool" where
  "truthy JNull = False"
| "truthy (JBool b) = b"
| "truthy (JInt i) = (i \<noteq> 0)"
| "truthy (JFloat r) = (r \<noteq> 0)"
| "truthy (JStr s) = (s \<noteq> [])"
| "truthy (JArr xs) = (xs \<noteq> [])"
| "truthy (JObj kvs) = (kvs \<noteq> [])"

text \<open>
  Python's \<^verbatim>\<open>repr\<close> (used when a dictionary or a key is formatted into a message) is
  not part of the repository: every function that formats a value takes it as the
  parameter \<open>py_repr\<close>.
\<close>

type_synonym repr_fn = "json \<Rightarrow> string"

section \<open>exceptions.py\<close>

datatype error_class =
    VideoGenerationErrorC
  | APIErrorC
  | TimeoutErrorC
  | DownloadErrorC
  | ValidationErrorC
  | OperationNotFoundErrorC

text \<open>
  The value of an attribute of a Python object: a JSON-like value (\<^verbatim>\<open>None\<close>, a bool, a
  number, a string, a list, a dictionary with string keys), or any other object (a
  dictionary with other keys, a bound method, ...), given by its \<^verbatim>\<open>repr\<close>.
\<close>

datatype pyobject = PyJson json | PyOther string

text \<open>
  The exceptions that flow through the workflow. \<open>VideoGenerationError\<close> carries the
  class, \<^verbatim>\<open>self.message\<close> and \<^verbatim>\<open>self.details\<close>. \<open>HTTPStatusError\<close> is
  \<^verbatim>\<open>httpx.HTTPStatusError\<close> (status code, message); \<open>RequestError\<close> is
  \<^verbatim>\<open>httpx.RequestError\<close>, the transport-level failures (connection errors, timeouts).
  \<open>PydanticValidationError\<close> is what a pydantic model raises when a field does not
  validate. \<open>OtherException\<close> is any other subclass of \<^verbatim>\<open>Exception\<close>: its \<^verbatim>\<open>str\<close>, and
  the value of its \<^verbatim>\<open>details\<close> attribute when it has one, whatever that value is.
\<close>

datatype exn =
    VideoGenerationError error_class string pydict
  | HTTPStatusError nat string
  | RequestError string
  | KeyError json
  | IndexError string
  | TypeError string
  | AttributeError string
  | ValueError string
  | OSError string
  | PydanticValidationError string
  | OtherException string "pyobject option"

definition APIError :: "string \<Rightarrow> int option \<Rightarrow> json option \<Rightarrow> exn" where
  "APIError message status_code response_data =
     VideoGenerationError APIErrorC message
       ((case status_code of
           None \<Rightarrow> []
         | Some c \<Rightarrow> if c \<noteq> 0 then [(''status_code'', JInt c)] else [])
        @ (case response_data of
             None \<Rightarrow> []
           | Some d \<Rightarrow> if truthy d then [(''response'', d)] else []))"

definition TimeoutError :: "string \<Rightarrow> rat option \<Rightarrow> exn" where
  "TimeoutError message elapsed_time =
     VideoGenerationError TimeoutErrorC message
       (case elapsed_time of
          None \<Rightarrow> []
        | Some t \<Rightarrow> if t \<noteq> 0 then [(''elapsed_time'', JFloat t)] else [])"

definition DownloadError :: "string \<Rightarrow> string option \<Rightarrow> int option \<Rightarrow> exn" where
  "DownloadError message video_uri partial_bytes =
     VideoGenerationError DownloadErrorC message
       ((case video_uri of
           None \<Rightarrow> []
         | Some u \<Rightarrow> if u \<noteq> [] then [(''video_uri'', JStr u)] else [])
        @ (case partial_bytes of
             None \<Rightarrow> []
           | Some n \<Rightarrow> if n \<noteq> 0 then [(''partial_bytes_downloaded'', JInt n)] else []))"

definition ValidationError :: "string \<Rightarrow> string option \<Rightarrow> exn" where
  "ValidationError message field =
     VideoGenerationError ValidationErrorC message
       (case field of
          None \<Rightarrow> []
        | Some f \<Rightarrow> if f \<noteq> [] then [(''field'', JStr f)] else [])"

text \<open>\<^verbatim>\<open>isinstance(e, httpx.HTTPError)\<close> and \<^verbatim>\<open>isinstance(e, httpx.HTTPStatusError)\<close>.\<close>

fun is_HTTPError :: "exn \<Rightarrow> bool" where
  "is_HTTPError (HTTPStatusError c m) = True"
| "is_HTTPError (RequestError m) = True"
| "is_HTTPError e = False"

fun is_HTTPStatusError :: "exn \<Rightarrow> bool" where
  "is_HTTPStatusError (HTTPStatusError c m) = True"
| "is_HTTPStatusError e = False"

text \<open>\<^verbatim>\<open>e.details\<close> when \<^verbatim>\<open>hasattr(e, "details")\<close>, else \<open>None\<close>.\<close>

fun exn_details :: "exn \<Rightarrow> pyobject option" where
  "exn_details (VideoGenerationError c m d) = Some (PyJson (JObj d))"
| "exn_details (OtherException m a) = a"
| "exn_details e = None"

text \<open>
  \<^verbatim>\<open>str(e)\<close>. For a \<open>VideoGenerationError\<close> this is \<^verbatim>\<open>__str__\<close> of the class; for a
  \<open>KeyError\<close> it is the \<^verbatim>\<open>repr\<close> of the key; for the others the message.
\<close>

fun str_exn :: "repr_fn \<Rightarrow> exn \<Rightarrow> string" where
  "str_exn py_repr (VideoGenerationError c m d) =
     (if d \<noteq> [] then m @ '' | Details: '' @ py_repr (JObj d) else m)"
| "str_exn py_repr (HTTPStatusError c m) = m"
| "str_exn py_repr (RequestError m) = m"
| "str_exn py_repr (KeyError k) = py_repr k"
| "str_exn py_repr (IndexError m) = m"
| "str_exn py_repr (TypeError m) = m"
| "str_exn py_repr (AttributeError m) = m"
| "str_exn py_repr (ValueError m) = m"
| "str_exn py_repr (OSError m) = m"
| "str_exn py_repr (PydanticValidationError m) = m"
| "str_exn py_repr (OtherException m a) = m"

text \<open>\<^verbatim>\<open>self.message\<close>: the message the exception was raised with.\<close>

fun exn_message :: "repr_fn \<Rightarrow> exn \<Rightarrow> string" where
  "exn_message py_repr (VideoGenerationError c m d) = m"
| "exn_message py_repr e = str_exn py_repr e"

text \<open>Sequencing of steps that may raise: the first exception ends the block.\<close>

definition raise_bind :: "exn + 'a \<Rightarrow> ('a \<Rightarrow> exn + 'b) \<Rightarrow> exn + 'b" where
  "raise_bind m f = (case m of Inl e \<Rightarrow> Inl e | Inr x \<Rightarrow> f x)"

section \<open>models.py\<close>

type_synonym path = string

record VideoResponse =
  success :: bool
  video_path :: "path option"
  operation_name :: "string option"
  video_uri :: "string option"
  file_size_mb :: "rat option"
  generation_time :: "rat option"
  error :: "string option"
  error_details :: "pydict option"

definition is_success :: "VideoResponse \<Rightarrow> bool" where
  "is_success r = (success r \<and> video_path r \<noteq> None)"

record BatchResult =
  total_videos :: int
  successful :: int
  failed :: int
  results :: "VideoResponse list"
  total_time :: "rat option"

definition get_successful_videos :: "BatchResult \<Rightarrow> VideoResponse list" where
  "get_successful_videos b = filter (\<lambda>r. is_success r) (results b)"

definition get_failed_videos :: "BatchResult \<Rightarrow> VideoResponse list" where
  "get_failed_videos b = filter (\<lambda>r. \<not> is_success r) (results b)"

text \<open>The fields of a validated \<^verbatim>\<open>VideoRequest\<close> that the workflow reads.\<close>

record VideoRequest =
  prompt :: string
  output_path :: "path option"
  image_path :: "path option"

section \<open>config.py\<close>

definition DEFAULT_MAX_WAIT_TIME :: int where
  "DEFAULT_MAX_WAIT_TIME = 600"

definition INITIAL_POLL_INTERVAL :: rat where
  "INITIAL_POLL_INTERVAL = 10"

definition MAX_POLL_INTERVAL :: rat where
  "MAX_POLL_INTERVAL = 30"

definition POLL_BACKOFF_MULTIPLIER :: rat where
  "POLL_BACKOFF_MULTIPLIER = 12 / 10"

definition MAX_RETRY_ATTEMPTS :: nat where
  "MAX_RETRY_ATTEMPTS = 3"

definition RETRY_MIN_WAIT :: rat where
  "RETRY_MIN_WAIT = 1"

definition RETRY_MAX_WAIT :: rat where
  "RETRY_MAX_WAIT = 10"

section \<open>generator.py: the operation poller\<close>

text \<open>
  Subscripting, membership and \<^verbatim>\<open>dict.get\<close> on a parsed JSON value, with the exception
  Python raises at each shape. The messages abbreviate CPython's wording.
\<close>

fun py_getitem :: "json \<Rightarrow> string \<Rightarrow> exn + json" where
  "py_getitem (JObj kvs) k =
     (case map_of kvs k of None \<Rightarrow> Inl (KeyError (JStr k)) | Some v \<Rightarrow> Inr v)"
| "py_getitem (JArr xs) k = Inl (TypeError ''list indices must be integers or slices, not str'')"
| "py_getitem (JStr s) k = Inl (TypeError ''string indices must be integers, not str'')"
| "py_getitem v k = Inl (TypeError ''object is not subscriptable'')"

fun py_getitem0 :: "json \<Rightarrow> exn + json" where
  "py_getitem0 (JArr []) = Inl (IndexError ''list index out of range'')"
| "py_getitem0 (JArr (x # xs)) = Inr x"
| "py_getitem0 (JObj kvs) = Inl (KeyError (JInt 0))"
| "py_getitem0 (JStr []) = Inl (IndexError ''string index out of range'')"
| "py_getitem0 (JStr (c # s)) = Inr (JStr [c])"
| "py_getitem0 v = Inl (TypeError ''object is not subscriptable'')"

fun py_contains :: "string \<Rightarrow> json \<Rightarrow> exn + bool" where
  "py_contains k (JObj kvs) = Inr (map_of kvs k \<noteq> None)"
| "py_contains k (JArr xs) = Inr (JStr k \<in> set xs)"
| "py_contains k (JStr s) = Inr (occurs_in k s)"
| "py_contains k v = Inl (TypeError ''argument is not iterable'')"

fun py_get :: "json \<Rightarrow> string \<Rightarrow> json \<Rightarrow> exn + json" where
  "py_get (JObj kvs) k dflt = Inr (case map_of kvs k of None \<Rightarrow> dflt | Some v \<Rightarrow> v)"
| "py_get v k dflt = Inl (AttributeError ''object has no attribute get'')"

text \<open>
  \<^verbatim>\<open>data["response"]["generateVideoResponse"]["generatedSamples"][0]["video"]["uri"]\<close>,
  evaluated left to right.
\<close>

definition extract_video_uri :: "json \<Rightarrow> exn + json" where
  "extract_video_uri data =
     raise_bind (py_getitem data ''response'') (\<lambda>r.
     raise_bind (py_getitem r ''generateVideoResponse'') (\<lambda>g.
     raise_bind (py_getitem g ''generatedSamples'') (\<lambda>samples.
     raise_bind (py_getitem0 samples) (\<lambda>sample.
     raise_bind (py_getitem sample ''video'') (\<lambda>video.
     py_getitem video ''uri'')))))"

text \<open>
  One status GET as the environment answers it: \<^verbatim>\<open>client.get\<close> raises a transport
  error, or a response arrives with its status code, the message \<^verbatim>\<open>raise_for_status\<close>
  would raise with, and the outcome of \<^verbatim>\<open>response.json()\<close> (a decoding error or the
  parsed body).
\<close>

datatype http_get =
    GetRaises string
  | GetResponse nat string "string + json"

text \<open>\<^verbatim>\<open>raise_for_status\<close> raises unless the status is 2xx.\<close>

definition is_success_status :: "nat \<Rightarrow> bool" where
  "is_success_status c = (200 \<le> c \<and> c \<le> 299)"

datatype tick_outcome = Returned json | Raised exn | NotDone

text \<open>
  The inner \<^verbatim>\<open>try\<close> around the extraction, with its \<^verbatim>\<open>except KeyError\<close> handler.
\<close>

definition try_extract :: "repr_fn \<Rightarrow> json \<Rightarrow> tick_outcome" where
  "try_extract py_repr data =
     (case extract_video_uri data of
        Inr uri \<Rightarrow> Returned uri
      | Inl (KeyError k) \<Rightarrow>
          Raised (APIError (''Could not extract video URI: '' @ str_exn py_repr (KeyError k))
                    None (Some data))
      | Inl e \<Rightarrow> Raised e)"

text \<open>What the loop does with a parsed body: the error check, then the done check.\<close>

definition poll_body :: "repr_fn \<Rightarrow> json \<Rightarrow> tick_outcome" where
  "poll_body py_repr data =
     (case py_contains ''error'' data of
        Inl e \<Rightarrow> Raised e
      | Inr True \<Rightarrow>
          (case py_get data ''error'' JNull of
             Inl e \<Rightarrow> Raised e
           | Inr err \<Rightarrow> Raised (APIError ''Video generation failed'' None (Some err)))
      | Inr False \<Rightarrow>
          (case py_get data ''done'' (JBool False) of
             Inl e \<Rightarrow> Raised e
           | Inr d \<Rightarrow> if truthy d then try_extract py_repr data else NotDone))"

text \<open>
  The body of the \<^verbatim>\<open>while True\<close> loop between the progress update and the sleep: the
  outer \<^verbatim>\<open>try\<close> with its \<^verbatim>\<open>except httpx.HTTPStatusError\<close> handler, which only prints.
  \<open>NotDone\<close> is falling through to the sleep.
\<close>

definition poll_tick :: "repr_fn \<Rightarrow> http_get \<Rightarrow> tick_outcome" where
  "poll_tick py_repr g =
     (case g of
        GetRaises m \<Rightarrow> Raised (RequestError m)
      | GetResponse status m body \<Rightarrow>
          if \<not> is_success_status status then NotDone
          else (case body of
                  Inl jm \<Rightarrow> Raised (ValueError jm)
                | Inr data \<Rightarrow> poll_body py_repr data))"

text \<open>
  The poll loop. The environment \<open>env\<close> gives, for the \<open>i\<close>-th tick, the answer to the GET
  and the time the GET takes; \<open>now\<close> is the reading of \<^verbatim>\<open>time.time()\<close>, and
  \<^verbatim>\<open>asyncio.sleep(poll_interval)\<close> advances it by the interval. The loop has no bound of
  its own, so the model takes fuel: \<open>None\<close> is "still running after that many ticks".
  The result carries the value returned or the exception raised, the final clock and the
  sleeps made, in order. Seconds are exact rationals: the rounding of the floating-point
  product is not modelled.
\<close>

fun poll_loop ::
  "nat \<Rightarrow> (nat \<Rightarrow> http_get \<times> rat) \<Rightarrow> repr_fn \<Rightarrow> int \<Rightarrow> rat \<Rightarrow> nat \<Rightarrow> rat \<Rightarrow> rat
   \<Rightarrow> ((exn + json) \<times> rat \<times> rat list) option" where
  "poll_loop 0 env py_repr max_wait_time start_time i now poll_interval = None"
| "poll_loop (Suc fuel) env py_repr max_wait_time start_time i now poll_interval =
     (let elapsed = now - start_time in
      if elapsed \<ge> of_int max_wait_time
      then Some (Inl (TimeoutError
                        (''Operation timed out after '' @ str_int max_wait_time @ '' seconds'')
                        (Some elapsed)), now, [])
      else
        (let now1 = now + snd (env i) in
         case poll_tick py_repr (fst (env i)) of
           Returned uri \<Rightarrow> Some (Inr uri, now1, [])
         | Raised e \<Rightarrow> Some (Inl e, now1, [])
         | NotDone \<Rightarrow>
             (case poll_loop fuel env py_repr max_wait_time start_time (Suc i)
                     (now1 + poll_interval)
                     (min (poll_interval * POLL_BACKOFF_MULTIPLIER) MAX_POLL_INTERVAL) of
                None \<Rightarrow> None
              | Some (r, t, sleeps) \<Rightarrow> Some (r, t, poll_interval # sleeps))))"

definition poll_operation ::
  "nat \<Rightarrow> (nat \<Rightarrow> http_get \<times> rat) \<Rightarrow> repr_fn \<Rightarrow> int \<Rightarrow> rat
   \<Rightarrow> ((exn + json) \<times> rat \<times> rat list) option" where
  "poll_operation fuel env py_repr max_wait_time now =
     poll_loop fuel env py_repr max_wait_time now 0 now INITIAL_POLL_INTERVAL"

text \<open>Recognising a tick answered with a non-2xx status.\<close>

fun is_status_error_reply :: "http_get \<Rightarrow> bool" where
  "is_status_error_reply (GetResponse status m body) = (\<not> is_success_status status)"
| "is_status_error_reply (GetRaises m) = False"

section \<open>The world the workflow acts on\<close>

text \<open>
  The regular files by path, and the reading of \<^verbatim>\<open>time.time()\<close>.
\<close>

type_synonym bytes = "char list"

record world =
  files :: "path \<rightharpoonup> bytes"
  clock :: rat

text \<open>
  \<^verbatim>\<open>path.exists()\<close>, \<^verbatim>\<open>path.unlink()\<close> and \<^verbatim>\<open>path.stat().st_size\<close>.
  Removing an existing file succeeds; \<open>stat\<close> raises on a missing file.
\<close>

definition path_exists :: "path \<Rightarrow> world \<Rightarrow> bool" where
  "path_exists p w = (files w p \<noteq> None)"

definition unlink :: "path \<Rightarrow> world \<Rightarrow> world" where
  "unlink p w = w\<lparr>files := (files w)(p := None)\<rparr>"

definition stat_size :: "path \<Rightarrow> world \<Rightarrow> exn + nat" where
  "stat_size p w =
     (case files w p of
        None \<Rightarrow> Inl (OSError ''No such file or directory'')
      | Some data \<Rightarrow> Inr (length data))"

section \<open>generator.py: the artifact downloader\<close>

text \<open>
  What the environment does during one download attempt: whether opening the stream
  raises a transport error, the status line, the outcome of
  \<^verbatim>\<open>int(response.headers.get("content-length", 0))\<close>, whether \<^verbatim>\<open>mkdir\<close> or
  \<^verbatim>\<open>open\<close> raise, the chunks \<^verbatim>\<open>aiter_bytes\<close> delivers, whether it then raises a
  transport error instead of ending, and the time the attempt takes.
\<close>

record download_env =
  connect_error :: "string option"
  status_code :: nat
  status_message :: string
  content_length :: "string + nat"
  mkdir_error :: "string option"
  open_error :: "string option"
  chunks :: "bytes list"
  stream_error :: "string option"
  duration :: rat

text \<open>
  The \<^verbatim>\<open>async for chunk\<close> loop: empty chunks are skipped, the others are appended to the
  file and counted.
\<close>

fun stream_to_file :: "bytes list \<Rightarrow> bytes \<Rightarrow> nat \<Rightarrow> bytes \<times> nat" where
  "stream_to_file [] written downloaded_bytes = (written, downloaded_bytes)"
| "stream_to_file (c # cs) written downloaded_bytes =
     (if c \<noteq> [] then stream_to_file cs (written @ c) (downloaded_bytes + length c)
      else stream_to_file cs written downloaded_bytes)"

text \<open>
  The \<^verbatim>\<open>try\<close> block of \<^verbatim>\<open>_download_video\<close>. \<^verbatim>\<open>open(output_path, "wb")\<close> creates or
  truncates the file; what was written before a streaming error stays in it when the
  block is left.
\<close>

definition verify_download :: "string \<Rightarrow> path \<Rightarrow> world \<Rightarrow> (exn + path) \<times> world" where
  "verify_download uri out w =
     (if \<not> path_exists out w
      then (Inl (DownloadError ''Downloaded file does not exist'' (Some uri) None), w)
      else (case stat_size out w of
              Inl e \<Rightarrow> (Inl e, w)
            | Inr file_size \<Rightarrow>
                if file_size = 0
                then (Inl (DownloadError ''Downloaded file is empty'' (Some uri) None),
                      unlink out w)
                else (Inr out, w)))"

definition download_try :: "download_env \<Rightarrow> string \<Rightarrow> path \<Rightarrow> world \<Rightarrow> (exn + path) \<times> world" where
  "download_try env uri out w0 =
     (let w = w0\<lparr>clock := clock w0 + duration env\<rparr> in
      case connect_error env of
        Some m \<Rightarrow> (Inl (RequestError m), w)
      | None \<Rightarrow>
          if \<not> is_success_status (status_code env)
          then (Inl (HTTPStatusError (status_code env) (status_message env)), w)
          else (case content_length env of
                  Inl m \<Rightarrow> (Inl (ValueError m), w)
                | Inr total_size \<Rightarrow>
                    (case mkdir_error env of
                       Some m \<Rightarrow> (Inl (OSError m), w)
                     | None \<Rightarrow>
                         (case open_error env of
                            Some m \<Rightarrow> (Inl (OSError m), w)
                          | None \<Rightarrow>
                              (let written = fst (stream_to_file (chunks env) [] 0);
                                   w1 = w\<lparr>files := (files w)(out \<mapsto> written)\<rparr>
                               in case stream_error env of
                                    Some m \<Rightarrow> (Inl (RequestError m), w1)
                                  | None \<Rightarrow> verify_download uri out w1)))))"

text \<open>The stream was opened and the file could be created: the chunk loop runs.\<close>

definition stream_opened :: "download_env \<Rightarrow> bool" where
  "stream_opened env =
     (connect_error env = None \<and> is_success_status (status_code env)
      \<and> (case content_length env of Inl m \<Rightarrow> False | Inr n \<Rightarrow> True)
      \<and> mkdir_error env = None \<and> open_error env = None)"

text \<open>
  The undecorated \<^verbatim>\<open>_download_video\<close>: the \<^verbatim>\<open>try\<close> block with its two handlers,
  \<^verbatim>\<open>except httpx.HTTPStatusError\<close> first, then \<^verbatim>\<open>except Exception\<close>, which removes the
  file when it exists.
\<close>

definition download_video_once ::
  "repr_fn \<Rightarrow> download_env \<Rightarrow> string \<Rightarrow> path \<Rightarrow> world \<Rightarrow> (exn + path) \<times> world" where
  "download_video_once py_repr env uri out w0 =
     (case download_try env uri out w0 of
        (Inr p, w) \<Rightarrow> (Inr p, w)
      | (Inl (HTTPStatusError code m), w) \<Rightarrow>
          (Inl (DownloadError (''Download failed with status '' @ str_nat code) (Some uri) None), w)
      | (Inl e, w) \<Rightarrow>
          (Inl (DownloadError (''Download failed: '' @ str_exn py_repr e) (Some uri) None),
           if path_exists out w then unlink out w else w))"

section \<open>The tenacity retry decorator\<close>

text \<open>
  \<^verbatim>\<open>@retry(retry=retry_if_exception_type(httpx.HTTPError),
  stop=stop_after_attempt(MAX_RETRY_ATTEMPTS), wait=wait_exponential(multiplier=1,
  min=RETRY_MIN_WAIT, max=RETRY_MAX_WAIT), reraise=True)\<close>: the call is made again only
  when it raised an \<^verbatim>\<open>httpx.HTTPError\<close> and fewer than \<open>MAX_RETRY_ATTEMPTS\<close> attempts
  were made; any other outcome, and the outcome of the last attempt, is the outcome of
  the decorated function. The wait before attempt \<open>n + 1\<close> is \<open>2 ^ (n - 1)\<close> seconds
  clamped to the bounds. The attempt number is passed to the call so that the environment
  can answer each attempt differently; the result also gives the number of attempts made.
\<close>

definition retry_wait :: "nat \<Rightarrow> rat" where
  "retry_wait attempt_number =
     max RETRY_MIN_WAIT (min (2 ^ (attempt_number - 1)) RETRY_MAX_WAIT)"

fun retry_from ::
  "nat \<Rightarrow> nat \<Rightarrow> (nat \<Rightarrow> world \<Rightarrow> (exn + 'a) \<times> world) \<Rightarrow> world
   \<Rightarrow> ((exn + 'a) \<times> world) \<times> nat" where
  "retry_from 0 attempt_number f w = (f attempt_number w, attempt_number)"
| "retry_from (Suc remaining) attempt_number f w =
     (case f attempt_number w of
        (Inr v, w') \<Rightarrow> ((Inr v, w'), attempt_number)
      | (Inl e, w') \<Rightarrow>
          if is_HTTPError e
          then retry_from remaining (Suc attempt_number) f
                 (w'\<lparr>clock := clock w' + retry_wait attempt_number\<rparr>)
          else ((Inl e, w'), attempt_number))"

definition with_retry ::
  "(nat \<Rightarrow> world \<Rightarrow> (exn + 'a) \<times> world) \<Rightarrow> world \<Rightarrow> ((exn + 'a) \<times> world) \<times> nat" where
  "with_retry f w = retry_from (MAX_RETRY_ATTEMPTS - 1) 1 f w"

text \<open>
  The decorated \<^verbatim>\<open>_download_video\<close>. The download URL is computed from the video URI
  and the base URL; \<open>net url n\<close> is what the environment does at the \<open>n\<close>-th attempt on
  that URL.
\<close>

definition download_video ::
  "repr_fn \<Rightarrow> (string \<Rightarrow> nat \<Rightarrow> download_env) \<Rightarrow> string \<Rightarrow> string \<Rightarrow> path \<Rightarrow> world
   \<Rightarrow> ((exn + path) \<times> world) \<times> nat" where
  "download_video py_repr net base_url uri out w =
     with_retry
       (\<lambda>attempt_number. download_video_once py_repr
          (net (parse_video_uri uri base_url) attempt_number) uri out) w"

section \<open>generator.py: the single-job orchestrator\<close>

text \<open>
  A step acts on the world and returns a value or raises. \<open>bind_step\<close> runs one step after
  another, as consecutive statements of a \<^verbatim>\<open>try\<close> block do: the first exception ends
  the block, in the world reached so far.
\<close>

type_synonym 'a step = "world \<Rightarrow> (exn + 'a) \<times> world"

definition return_step :: "'a \<Rightarrow> 'a step" where
  "return_step x = (\<lambda>w. (Inr x, w))"

definition bind_step :: "'a step \<Rightarrow> ('a \<Rightarrow> 'b step) \<Rightarrow> 'b step" where
  "bind_step m f = (\<lambda>w. case m w of (Inl e, w') \<Rightarrow> (Inl e, w') | (Inr x, w') \<Rightarrow> f x w')"

text \<open>
  The collaborators \<^verbatim>\<open>generate_video_async\<close> calls, each with whatever behaviour it
  has in a run: the construction of the \<^verbatim>\<open>VideoRequest\<close> (pydantic validation, which may
  raise and may create the parent directory), \<^verbatim>\<open>generate_filename\<close> (which reads the
  clock), and the methods \<^verbatim>\<open>_upload_image\<close>, \<^verbatim>\<open>_initiate_generation\<close>,
  \<^verbatim>\<open>_poll_operation\<close> and \<^verbatim>\<open>_download_video\<close>.
\<close>

record generator =
  do_validate :: "string \<Rightarrow> path option \<Rightarrow> path option \<Rightarrow> VideoRequest step"
  do_generate_filename :: "string \<Rightarrow> nat option \<Rightarrow> world \<Rightarrow> path"
  do_upload_image :: "path \<Rightarrow> string option step"
  do_initiate_generation :: "string \<Rightarrow> string option \<Rightarrow> string step"
  do_poll_operation :: "string \<Rightarrow> string step"
  do_download_video :: "string \<Rightarrow> path \<Rightarrow> path step"

text \<open>
  The two optional parts of the \<^verbatim>\<open>try\<close> block: the output path is the requested one or
  a generated file name; the image is uploaded when the request has one.
\<close>

definition resolve_output_path :: "generator \<Rightarrow> string \<Rightarrow> VideoRequest \<Rightarrow> world \<Rightarrow> path" where
  "resolve_output_path g p request w =
     (case output_path request of
        None \<Rightarrow> do_generate_filename g p None w
      | Some q \<Rightarrow> q)"

definition upload_if_given :: "generator \<Rightarrow> VideoRequest \<Rightarrow> string option step" where
  "upload_if_given g request =
     (case image_path request of
        None \<Rightarrow> return_step None
      | Some ip \<Rightarrow> do_upload_image g ip)"

text \<open>The response built when every step has succeeded.\<close>

definition success_response ::
  "path \<Rightarrow> string \<Rightarrow> string \<Rightarrow> nat \<Rightarrow> rat \<Rightarrow> VideoResponse" where
  "success_response vpath op_name uri n_bytes gen_time =
     \<lparr>success = True,
      video_path = Some vpath,
      operation_name = Some op_name,
      video_uri = Some uri,
      file_size_mb = Some (of_nat n_bytes / (1024 * 1024)),
      generation_time = Some gen_time,
      error = None,
      error_details = None\<rparr>"

text \<open>The \<^verbatim>\<open>try\<close> block of \<^verbatim>\<open>generate_video_async\<close>.\<close>

definition generate_video_try ::
  "generator \<Rightarrow> string \<Rightarrow> path option \<Rightarrow> path option \<Rightarrow> rat \<Rightarrow> VideoResponse step" where
  "generate_video_try g p out img start_time =
     bind_step (do_validate g p out img) (\<lambda>request.
     bind_step (\<lambda>w. (Inr (resolve_output_path g p request w), w)) (\<lambda>out_path.
     bind_step (upload_if_given g request) (\<lambda>image_uri.
     bind_step (do_initiate_generation g (prompt request) image_uri) (\<lambda>op_name.
     bind_step (do_poll_operation g op_name) (\<lambda>uri.
     bind_step (do_download_video g uri out_path) (\<lambda>vpath.
     bind_step (\<lambda>w. (Inr (clock w - start_time), w)) (\<lambda>gen_time.
     bind_step (\<lambda>w. (stat_size vpath w, w)) (\<lambda>n_bytes.
     return_step (success_response vpath op_name uri n_bytes gen_time)))))))))"

text \<open>
  The field \<^verbatim>\<open>error_details: dict[str, Any] | None\<close> of the pydantic model
  \<^verbatim>\<open>VideoResponse\<close>: \<^verbatim>\<open>None\<close> and a dictionary with string keys validate, anything
  else makes the constructor raise.
\<close>

fun validate_error_details :: "pyobject \<Rightarrow> exn + pydict option" where
  "validate_error_details (PyJson JNull) = Inr None"
| "validate_error_details (PyJson (JObj d)) = Inr (Some d)"
| "validate_error_details v =
     Inl (PydanticValidationError
            ''1 validation error for VideoResponse: error_details: Input should be a valid dictionary'')"

text \<open>The failed response, once \<open>error_details\<close> has validated.\<close>

definition failure_response :: "repr_fn \<Rightarrow> exn \<Rightarrow> pydict option \<Rightarrow> rat \<Rightarrow> VideoResponse" where
  "failure_response py_repr e d gen_time =
     \<lparr>success = False,
      video_path = None,
      operation_name = None,
      video_uri = None,
      file_size_mb = None,
      generation_time = Some gen_time,
      error = Some (str_exn py_repr e),
      error_details = d\<rparr>"

text \<open>
  The body of the \<^verbatim>\<open>except Exception as e\<close> handler: \<open>error_details\<close> is \<^verbatim>\<open>{}\<close>, or
  \<^verbatim>\<open>e.details\<close> when the exception has that attribute, and is passed as it is to the
  constructor of \<^verbatim>\<open>VideoResponse\<close>, which validates it.
\<close>

definition handle_exception :: "repr_fn \<Rightarrow> exn \<Rightarrow> rat \<Rightarrow> exn + VideoResponse" where
  "handle_exception py_repr e gen_time =
     (let details_value = (case exn_details e of None \<Rightarrow> PyJson (JObj []) | Some v \<Rightarrow> v)
      in case validate_error_details details_value of
           Inl ve \<Rightarrow> Inl ve
         | Inr d \<Rightarrow> Inr (failure_response py_repr e d gen_time))"

text \<open>
  \<^verbatim>\<open>generate_video_async\<close>: the \<^verbatim>\<open>try\<close> block and its handler. An exception raised
  inside the handler leaves the function.
\<close>

definition generate_video_async ::
  "generator \<Rightarrow> repr_fn \<Rightarrow> string \<Rightarrow> path option \<Rightarrow> path option \<Rightarrow> VideoResponse step" where
  "generate_video_async g py_repr p out img w0 =
     (let start_time = clock w0 in
      case generate_video_try g p out img start_time w0 of
        (Inr r, w) \<Rightarrow> (Inr r, w)
      | (Inl e, w) \<Rightarrow> (handle_exception py_repr e (clock w - start_time), w))"

text \<open>
  The exceptions on which the handler's response validates: those without a
  \<^verbatim>\<open>details\<close> attribute, and those whose \<^verbatim>\<open>details\<close> is \<^verbatim>\<open>None\<close> or a dictionary with
  string keys, as every exception of the package has.
\<close>

fun well_formed_details :: "pyobject option \<Rightarrow> bool" where
  "well_formed_details None = True"
| "well_formed_details (Some (PyJson JNull)) = True"
| "well_formed_details (Some (PyJson (JObj d))) = True"
| "well_formed_details (Some v) = False"

text \<open>
  "A step raises": the first of validation, upload, submission, polling and download
  that raises, after the steps before it have returned, with the exception and the world
  at that point.
\<close>

inductive step_raises ::
  "generator \<Rightarrow> string \<Rightarrow> path option \<Rightarrow> path option \<Rightarrow> world \<Rightarrow> exn \<Rightarrow> world \<Rightarrow> bool"
  for g :: generator and p :: string and out :: "path option" and img :: "path option"
    and w :: world where
  validation_raises:
    "do_validate g p out img w = (Inl e, w') \<Longrightarrow> step_raises g p out img w e w'"
| upload_raises:
    "do_validate g p out img w = (Inr rq, w1) \<Longrightarrow>
     upload_if_given g rq w1 = (Inl e, w') \<Longrightarrow> step_raises g p out img w e w'"
| submission_raises:
    "do_validate g p out img w = (Inr rq, w1) \<Longrightarrow>
     upload_if_given g rq w1 = (Inr iu, w2) \<Longrightarrow>
     do_initiate_generation g (prompt rq) iu w2 = (Inl e, w') \<Longrightarrow>
     step_raises g p out img w e w'"
| polling_raises:
    "do_validate g p out img w = (Inr rq, w1) \<Longrightarrow>
     upload_if_given g rq w1 = (Inr iu, w2) \<Longrightarrow>
     do_initiate_generation g (prompt rq) iu w2 = (Inr opn, w3) \<Longrightarrow>
     do_poll_operation g opn w3 = (Inl e, w') \<Longrightarrow>
     step_raises g p out img w e w'"
| download_raises:
    "do_validate g p out img w = (Inr rq, w1) \<Longrightarrow>
     upload_if_given g rq w1 = (Inr iu, w2) \<Longrightarrow>
     do_initiate_generation g (prompt rq) iu w2 = (Inr opn, w3) \<Longrightarrow>
     do_poll_operation g opn w3 = (Inr vu, w4) \<Longrightarrow>
     do_download_video g vu (resolve_output_path g p rq w1) w4 = (Inl e, w') \<Longrightarrow>
     step_raises g p out img w e w'"

code_pred step_raises .

section \<open>generator.py: the batch orchestrator\<close>

text \<open>
  \<^verbatim>\<open>_generate_with_limit(prompt, index)\<close> once it holds a permit: the outcome of the job
  for \<open>prompts ! index\<close>. Each job has its own collaborators' behaviour and sees its own
  world.
\<close>

definition generate_with_limit ::
  "(nat \<Rightarrow> generator) \<Rightarrow> (nat \<Rightarrow> world) \<Rightarrow> repr_fn \<Rightarrow> string list \<Rightarrow> path
   \<Rightarrow> path option list option \<Rightarrow> nat \<Rightarrow> exn + VideoResponse" where
  "generate_with_limit gens worlds py_repr prompts out_dir image_paths index =
     (let p = prompts ! index;
          output_file = out_dir @ ''/''
                        @ do_generate_filename (gens index) p (Some index) (worlds index);
          img = (case image_paths of
                   None \<Rightarrow> None
                 | Some ips \<Rightarrow> if ips \<noteq> [] \<and> index < length ips then ips ! index else None)
      in fst (generate_video_async (gens index) py_repr p (Some output_file) img
                (worlds index)))"

text \<open>
  The scheduler state while \<^verbatim>\<open>asyncio.gather\<close> runs the tasks: the tasks waiting for
  the semaphore, the tasks holding a permit, the completion log (oldest first) and the
  free permits. A task acquires a permit when one is free; a running task completes,
  logs its outcome and releases its permit. Any interleaving of these steps is a run.
\<close>

record sched =
  waiting :: "nat list"
  running :: "nat list"
  finished :: "(nat \<times> (exn + VideoResponse)) list"
  permits :: nat

inductive sched_step :: "(nat \<Rightarrow> exn + VideoResponse) \<Rightarrow> sched \<Rightarrow> sched \<Rightarrow> bool"
  for job :: "nat \<Rightarrow> exn + VideoResponse" where
  acquire:
    "i \<in> set (waiting s) \<Longrightarrow> 0 < permits s \<Longrightarrow>
     sched_step job s
       (s\<lparr>waiting := remove1 i (waiting s), running := i # running s,
          permits := permits s - 1\<rparr>)"
| complete:
    "i \<in> set (running s) \<Longrightarrow>
     sched_step job s
       (s\<lparr>running := remove1 i (running s), finished := finished s @ [(i, job i)],
          permits := Suc (permits s)\<rparr>)"

code_pred sched_step .

definition sched_init :: "nat \<Rightarrow> nat \<Rightarrow> sched" where
  "sched_init n limit = \<lparr>waiting = [0..<n], running = [], finished = [], permits = limit\<rparr>"

text \<open>
  \<^verbatim>\<open>asyncio.gather(*tasks, return_exceptions=False)\<close> on the completion log: the
  outcomes in the order of the tasks passed, whatever the order of completion; an
  exception raised by a task is raised by \<open>gather\<close>.
\<close>

fun first_raised :: "(nat \<times> (exn + VideoResponse)) list \<Rightarrow> exn option" where
  "first_raised [] = None"
| "first_raised ((i, Inl e) # entries) = Some e"
| "first_raised ((i, Inr r) # entries) = first_raised entries"

fun collect_results :: "(exn + VideoResponse) option list \<Rightarrow> VideoResponse list option" where
  "collect_results [] = Some []"
| "collect_results (Some (Inr r) # os) = map_option (\<lambda>rs. r # rs) (collect_results os)"
| "collect_results (other # os) = None"

definition gather :: "nat \<Rightarrow> (nat \<times> (exn + VideoResponse)) list \<Rightarrow> VideoResponse list option" where
  "gather n entries = collect_results (map (map_of entries) [0..<n])"

text \<open>The statistics and the \<^verbatim>\<open>BatchResult\<close> built from the gathered results.\<close>

definition batch_result :: "string list \<Rightarrow> VideoResponse list \<Rightarrow> rat \<Rightarrow> BatchResult" where
  "batch_result prompts rs t =
     (let n_successful = int (length (filter (\<lambda>r. is_success r) rs));
          n_failed = int (length rs) - n_successful
      in \<lparr>total_videos = int (length prompts),
          successful = n_successful,
          failed = n_failed,
          results = rs,
          total_time = Some t\<rparr>)"

text \<open>
  \<^verbatim>\<open>generate_batch\<close>: a run of the scheduler from the initial state. It raises when a
  task raised; it returns once every task has completed.
\<close>

inductive generate_batch ::
  "(nat \<Rightarrow> exn + VideoResponse) \<Rightarrow> string list \<Rightarrow> nat \<Rightarrow> rat \<Rightarrow> exn + BatchResult \<Rightarrow> bool"
  for job :: "nat \<Rightarrow> exn + VideoResponse" where
  batch_raises:
    "(sched_step job)\<^sup>*\<^sup>* (sched_init (length prompts) limit) s \<Longrightarrow>
     first_raised (finished s) = Some e \<Longrightarrow>
     generate_batch job prompts limit t (Inl e)"
| batch_returns:
    "(sched_step job)\<^sup>*\<^sup>* (sched_init (length prompts) limit) s \<Longrightarrow>
     waiting s = [] \<Longrightarrow> running s = [] \<Longrightarrow>
     gather (length prompts) (finished s) = Some rs \<Longrightarrow>
     generate_batch job prompts limit t (Inr (batch_result prompts rs t))"

code_pred generate_batch .

text \<open>
  What holds in every scheduler state reached from the initial one: each logged outcome
  is the outcome of its job, every task is waiting, running or finished, and the permits
  in use are the running tasks.
\<close>

definition sched_inv :: "(nat \<Rightarrow> exn + VideoResponse) \<Rightarrow> nat \<Rightarrow> nat \<Rightarrow> sched \<Rightarrow> bool" where
  "sched_inv job n limit s =
     ((\<forall>entry \<in> set (finished s). snd entry = job (fst entry))
      \<and> set (waiting s) \<union> set (running s) \<union> fst ` set (finished s) = {0..<n}
      \<and> permits s + length (running s) = limit)"

definition all_done :: "sched \<Rightarrow> bool" where
  "all_done s = (waiting s = [] \<and> running s = [])"

section \<open>Concrete runs\<close>

text \<open>Inputs and environments at which the properties below are evaluated.\<close>

definition example_repr :: repr_fn where
  "example_repr v = ''<repr>''"

definition pending_body :: json where
  "pending_body = JObj [(''done'', JBool False)]"

definition done_body :: json where
  "done_body =
     JObj [(''done'', JBool True),
           (''response'',
            JObj [(''generateVideoResponse'',
                   JObj [(''generatedSamples'',
                          JArr [JObj [(''video'', JObj [(''uri'', JStr ''files/abc123'')])]])])])]"

definition empty_samples_body :: json where
  "empty_samples_body =
     JObj [(''done'', JBool True),
           (''response'',
            JObj [(''generateVideoResponse'', JObj [(''generatedSamples'', JArr [])])])]"

definition env_refused :: "nat \<Rightarrow> http_get \<times> rat" where
  "env_refused i = (GetRaises ''connection refused'', 0)"

definition env_503 :: "nat \<Rightarrow> http_get \<times> rat" where
  "env_503 i = (GetResponse 503 ''Server error 503 Service Unavailable'' (Inl ''not JSON''), 0)"

definition env_refused_then_done :: "nat \<Rightarrow> http_get \<times> rat" where
  "env_refused_then_done i =
     (if i = 0 then (GetRaises ''connection refused'', 0)
      else (GetResponse 200 [] (Inr done_body), 1))"

definition env_503_then_done :: "nat \<Rightarrow> http_get \<times> rat" where
  "env_503_then_done i =
     (if i = 0
      then (GetResponse 503 ''Server error 503 Service Unavailable'' (Inl ''not JSON''), 0)
      else (GetResponse 200 [] (Inr done_body), 1))"

definition env_two_pending :: "nat \<Rightarrow> http_get \<times> rat" where
  "env_two_pending i =
     (if i < 2 then (GetResponse 200 [] (Inr pending_body), 1)
      else (GetResponse 200 [] (Inr done_body), 1))"

definition env_empty_samples :: "nat \<Rightarrow> http_get \<times> rat" where
  "env_empty_samples i = (GetResponse 200 [] (Inr empty_samples_body), 1)"

definition response_without_path :: VideoResponse where
  "response_without_path =
     \<lparr>success = True, video_path = None, operation_name = Some ''operations/op1'',
      video_uri = Some ''files/abc123'', file_size_mb = None, generation_time = Some 42,
      error = None, error_details = None\<rparr>"

definition response_ok :: VideoResponse where
  "response_ok =
     \<lparr>success = True, video_path = Some ''out/veo_cat_0_1700000000.mp4'',
      operation_name = Some ''operations/op0'', video_uri = Some ''files/abc123'',
      file_size_mb = Some 3, generation_time = Some 40, error = None, error_details = None\<rparr>"

definition world0 :: world where
  "world0 = \<lparr>files = Map.empty, clock = 0\<rparr>"

definition env_ok :: download_env where
  "env_ok =
     \<lparr>connect_error = None, status_code = 200, status_message = [],
      content_length = Inr 11, mkdir_error = None, open_error = None,
      chunks = [''video'', [], ''-bytes''], stream_error = None, duration = 5\<rparr>"

definition net_refused_then_ok :: "string \<Rightarrow> nat \<Rightarrow> download_env" where
  "net_refused_then_ok url attempt_number =
     (if attempt_number = 1 then env_ok\<lparr>connect_error := Some ''connection refused''\<rparr>
      else env_ok)"

definition net_broken_stream :: "string \<Rightarrow> nat \<Rightarrow> download_env" where
  "net_broken_stream url attempt_number = env_ok\<lparr>stream_error := Some ''peer closed connection''\<rparr>"

definition net_ok :: "string \<Rightarrow> nat \<Rightarrow> download_env" where
  "net_ok url attempt_number = env_ok"

definition example_base_url :: string where
  "example_base_url = ''https://api.thucchien.ai/gemini/v1beta''"

text \<open>
  A job whose request is valid and whose submission succeeds; polling times out after
  601 seconds.
\<close>

definition generator_poll_times_out :: generator where
  "generator_poll_times_out =
     \<lparr>do_validate = (\<lambda>p out img. return_step \<lparr>prompt = p, output_path = out, image_path = img\<rparr>),
      do_generate_filename =
        (\<lambda>p idx w. case idx of
                      None \<Rightarrow> ''veo_video_1700000000.mp4''
                    | Some i \<Rightarrow> ''veo_video_'' @ str_nat i @ ''_1700000000.mp4''),
      do_upload_image = (\<lambda>ip. return_step (Some ''files/image1'')),
      do_initiate_generation = (\<lambda>p iu. return_step ''operations/op1''),
      do_poll_operation =
        (\<lambda>op_name w. (Inl (TimeoutError ''Operation timed out after 600 seconds'' (Some 601)),
                       w\<lparr>clock := clock w + 601\<rparr>)),
      do_download_video =
        (\<lambda>uri out w. fst (download_video example_repr net_ok example_base_url uri out w))\<rparr>"

text \<open>
  A job whose submission fails with a transport error whose message is empty, as a read
  timeout of the HTTP client has it.
\<close>

definition generator_submit_read_timeout :: generator where
  "generator_submit_read_timeout =
     generator_poll_times_out
       \<lparr>do_initiate_generation :=
          (\<lambda>p iu w. (Inl (RequestError []), w\<lparr>clock := clock w + 30\<rparr>))\<rparr>"

text \<open>
  A job whose polling raises an exception that is not of the package and whose
  \<^verbatim>\<open>details\<close> attribute is a string.
\<close>

definition generator_poll_foreign_exception :: generator where
  "generator_poll_foreign_exception =
     generator_poll_times_out
       \<lparr>do_poll_operation :=
          (\<lambda>op_name w. (Inl (OtherException ''quota exceeded''
                                 (Some (PyJson (JStr ''retry after 60 seconds'')))),
                         w\<lparr>clock := clock w + 20\<rparr>))\<rparr>"

text \<open>A job in which every step succeeds; the download is the downloader above.\<close>

definition generator_all_ok :: generator where
  "generator_all_ok =
     generator_poll_times_out
       \<lparr>do_poll_operation := (\<lambda>op_name w. (Inr ''files/abc123'', w\<lparr>clock := clock w + 40\<rparr>))\<rparr>"

definition example_gens :: "nat \<Rightarrow> generator" where
  "example_gens i = (if i = 0 then generator_poll_times_out else generator_all_ok)"

definition example_worlds :: "nat \<Rightarrow> world" where
  "example_worlds i = world0"

definition example_prompts :: "string list" where
  "example_prompts = [''cat'', ''dog'']"

definition example_job :: "nat \<Rightarrow> exn + VideoResponse" where
  "example_job =
     generate_with_limit example_gens example_worlds example_repr example_prompts ''out'' None"

definition example_timeout_response :: VideoResponse where
  "example_timeout_response =
     failure_response example_repr
       (TimeoutError ''Operation timed out after 600 seconds'' (Some 601))
       (Some [(''elapsed_time'', JFloat 601)]) 601"

definition example_ok_response :: VideoResponse where
  "example_ok_response =
     success_response ''out/veo_video_1_1700000000.mp4'' ''operations/op1'' ''files/abc123''
       (length ''video-bytes'') 45"

section \<open>Properties of the URL rewriting\<close>

lemma str_replace_absent:
  "old \<noteq> [] \<Longrightarrow> \<not> occurs_in old s \<Longrightarrow> str_replace old new s = s"
proof (induction s)
  case Nil
  then show ?case by (simp add: str_replace.simps)
next
  case (Cons c s)
  then have "str_replace old new s = s" by simp
  moreover have "\<not> prefix old (c # s)" using Cons.prems(2) by simp
  ultimately show ?case using Cons.prems(1) by (subst str_replace.simps) simp
qed

lemma prefix_butlast:
  assumes "prefix old x" and "length old < length x"
  shows "prefix old (butlast x)"
proof -
  obtain r where x: "x = old @ r" using assms(1) by (auto simp: prefix_def)
  with assms(2) have "r \<noteq> []" by auto
  then have "butlast x = old @ butlast r" using x by (simp add: butlast_append)
  then show ?thesis by simp
qed

lemma str_replace_only_suffix:
  "old \<noteq> [] \<Longrightarrow> \<not> occurs_in old (butlast (b @ old)) \<Longrightarrow>
   str_replace old new (b @ old) = b @ new"
proof (induction b)
  case Nil
  then show ?case by (subst str_replace.simps) (simp add: str_replace.simps)
next
  case (Cons c b)
  have bl: "butlast ((c # b) @ old) = c # butlast (b @ old)"
    using Cons.prems(1) by simp
  have np': "\<not> prefix old (c # butlast (b @ old))"
    and no: "\<not> occurs_in old (butlast (b @ old))"
    using Cons.prems(2) unfolding bl by simp_all
  have np: "\<not> prefix old ((c # b) @ old)"
  proof
    assume "prefix old ((c # b) @ old)"
    then have "prefix old (butlast ((c # b) @ old))" by (rule prefix_butlast) simp
    with np' bl show False by simp
  qed
  have "str_replace old new (b @ old) = b @ new" using Cons.IH Cons.prems(1) no by simp
  then show ?case using np Cons.prems(1) by (subst str_replace.simps) simp
qed

lemma V1BETA_nonempty: "V1BETA \<noteq> []"
  by (simp add: V1BETA_def)

lemma GOOGLE_HOST_PREFIX_nonempty: "GOOGLE_HOST_PREFIX \<noteq> []"
  by (simp add: GOOGLE_HOST_PREFIX_def)

text \<open>
  Where the code and the transform of the specification agree: whenever the vendor host
  prefix, if the URI starts with it, does not occur again in the rest of the URI, and
  \<^verbatim>\<open>/v1beta\<close>, if the base ends with it, occurs nowhere else in the base.
\<close>

lemma parse_video_uri_refines_spec:
  assumes uri: "prefix GOOGLE_HOST_PREFIX uri \<longrightarrow>
                \<not> occurs_in GOOGLE_HOST_PREFIX (drop (length GOOGLE_HOST_PREFIX) uri)"
      and base: "suffix V1BETA base \<longrightarrow> \<not> occurs_in V1BETA (butlast base)"
  shows "parse_video_uri uri base = parse_video_uri_spec uri base"
proof -
  have rel: "(if prefix GOOGLE_HOST_PREFIX uri
              then str_replace GOOGLE_HOST_PREFIX [] uri else uri)
             = strip_host_prefix_spec uri"
  proof (cases "prefix GOOGLE_HOST_PREFIX uri")
    case True
    then obtain r where r: "uri = GOOGLE_HOST_PREFIX @ r" by (auto simp: prefix_def)
    have "str_replace GOOGLE_HOST_PREFIX [] uri = str_replace GOOGLE_HOST_PREFIX [] r"
      using True GOOGLE_HOST_PREFIX_nonempty r
      by (subst str_replace.simps) auto
    also have "\<dots> = r"
      using uri True r GOOGLE_HOST_PREFIX_nonempty by (simp add: str_replace_absent)
    finally show ?thesis using True r by (simp add: strip_host_prefix_spec_def)
  next
    case False
    then show ?thesis by (simp add: strip_host_prefix_spec_def)
  qed
  have bas: "(if suffix V1BETA base
              then str_replace V1BETA DOWNLOAD_SEGMENT base else base)
             = rewrite_base_spec base"
  proof (cases "suffix V1BETA base")
    case True
    then obtain b where b: "base = b @ V1BETA" by (auto simp: suffix_def)
    have "str_replace V1BETA DOWNLOAD_SEGMENT (b @ V1BETA) = b @ DOWNLOAD_SEGMENT"
      using base True b V1BETA_nonempty by (intro str_replace_only_suffix) simp_all
    then show ?thesis using True b by (simp add: rewrite_base_spec_def)
  next
    case False
    then show ?thesis by (simp add: rewrite_base_spec_def)
  qed
  show ?thesis
    unfolding parse_video_uri_def parse_video_uri_spec_def Let_def rel bas ..
qed

lemma parse_video_uri_refines_spec_example:
  "\<not> occurs_in GOOGLE_HOST_PREFIX (drop (length GOOGLE_HOST_PREFIX)
        ''https://generativelanguage.googleapis.com/v1beta/files/abc123'')
   \<and> \<not> occurs_in V1BETA (butlast ''https://api.thucchien.ai/gemini/v1beta'')
   \<and> parse_video_uri ''https://generativelanguage.googleapis.com/v1beta/files/abc123''
        ''https://api.thucchien.ai/gemini/v1beta''
     = ''https://api.thucchien.ai/gemini/download/v1beta/files/abc123''"
proof -
  have h1: "\<not> occurs_in GOOGLE_HOST_PREFIX (drop (length GOOGLE_HOST_PREFIX)
        ''https://generativelanguage.googleapis.com/v1beta/files/abc123'')"
    by (simp add: GOOGLE_HOST_PREFIX_def)
  have h2: "\<not> occurs_in V1BETA (butlast ''https://api.thucchien.ai/gemini/v1beta'')"
    by (simp add: V1BETA_def)
  have "parse_video_uri_spec ''https://generativelanguage.googleapis.com/v1beta/files/abc123''
        ''https://api.thucchien.ai/gemini/v1beta''
     = ''https://api.thucchien.ai/gemini/download/v1beta/files/abc123''"
    by (simp add: parse_video_uri_spec_def rewrite_base_spec_def strip_host_prefix_spec_def
        GOOGLE_HOST_PREFIX_def V1BETA_def DOWNLOAD_SEGMENT_def suffix_def)
  then show ?thesis
    using h1 h2 parse_video_uri_refines_spec
      [of "''https://generativelanguage.googleapis.com/v1beta/files/abc123''"
          "''https://api.thucchien.ai/gemini/v1beta''"]
    by simp
qed

text \<open>
  C7 fails on the code. The guards \<^verbatim>\<open>startswith\<close> and \<^verbatim>\<open>endswith\<close> select the leading
  host prefix and the trailing \<^verbatim>\<open>/v1beta\<close>, but \<^verbatim>\<open>str.replace\<close> then rewrites every
  occurrence: with a base in which \<^verbatim>\<open>/v1beta\<close> occurs twice both occurrences become
  \<^verbatim>\<open>/download\<close>, where the transform of the specification rewrites the trailing one
  only; and a host prefix that occurs again inside the URI is removed there too.
\<close>

theorem parse_video_uri_rewrites_every_occurrence:
  "parse_video_uri ''files/abc123'' ''https://proxy.example/v1beta/v1beta''
     = ''https://proxy.example/download/download/files/abc123''
   \<and> parse_video_uri_spec ''files/abc123'' ''https://proxy.example/v1beta/v1beta''
     = ''https://proxy.example/v1beta/download/files/abc123''
   \<and> parse_video_uri
       ''https://generativelanguage.googleapis.com/v1beta/files/abc123?src=https://generativelanguage.googleapis.com/x''
       ''https://api.thucchien.ai/gemini/v1beta''
     = ''https://api.thucchien.ai/gemini/download/v1beta/files/abc123?src=x''
   \<and> parse_video_uri_spec
       ''https://generativelanguage.googleapis.com/v1beta/files/abc123?src=https://generativelanguage.googleapis.com/x''
       ''https://api.thucchien.ai/gemini/v1beta''
     = ''https://api.thucchien.ai/gemini/download/v1beta/files/abc123?src=https://generativelanguage.googleapis.com/x''"
  by (simp add: parse_video_uri_def parse_video_uri_spec_def rewrite_base_spec_def
      strip_host_prefix_spec_def GOOGLE_HOST_PREFIX_def V1BETA_def DOWNLOAD_SEGMENT_def
      suffix_def str_replace.simps)

section \<open>Properties of the operation poller\<close>

lemma poll_loop_Suc_cases:
  assumes "poll_loop (Suc fuel) env pr mw st i t0 iv = Some (r, t, sleeps)"
  obtains (stop) "sleeps = []"
    | (continue) sl where "sleeps = iv # sl"
        "poll_loop fuel env pr mw st (Suc i) (t0 + snd (env i) + iv)
           (min (iv * POLL_BACKOFF_MULTIPLIER) MAX_POLL_INTERVAL) = Some (r, t, sl)"
  using assms
  by (auto simp: Let_def split: if_splits tick_outcome.splits option.splits)

lemma poll_loop_sleeps_shape:
  "poll_loop fuel env pr mw st i t0 iv = Some (r, t, sleeps) \<Longrightarrow>
   (sleeps \<noteq> [] \<longrightarrow> sleeps ! 0 = iv) \<and>
   (\<forall>k. Suc k < length sleeps \<longrightarrow>
      sleeps ! Suc k = min (sleeps ! k * POLL_BACKOFF_MULTIPLIER) MAX_POLL_INTERVAL)"
proof (induction fuel arbitrary: i t0 iv sleeps)
  case 0
  then show ?case by simp
next
  case (Suc fuel)
  from Suc.prems show ?case
  proof (cases rule: poll_loop_Suc_cases)
    case stop
    then show ?thesis by simp
  next
    case (continue sl)
    from Suc.IH [OF continue(2)]
    have first: "sl \<noteq> [] \<longrightarrow> sl ! 0 = min (iv * POLL_BACKOFF_MULTIPLIER) MAX_POLL_INTERVAL"
      and rest: "\<forall>k. Suc k < length sl \<longrightarrow>
                 sl ! Suc k = min (sl ! k * POLL_BACKOFF_MULTIPLIER) MAX_POLL_INTERVAL"
      by simp_all
    have "(iv # sl) ! Suc k = min ((iv # sl) ! k * POLL_BACKOFF_MULTIPLIER) MAX_POLL_INTERVAL"
      if "Suc k < length (iv # sl)" for k
    proof (cases k)
      case 0
      with that first show ?thesis by auto
    next
      case (Suc j)
      with that rest show ?thesis by simp
    qed
    then show ?thesis using continue(1) by simp
  qed
qed

lemma next_interval_ge:
  fixes iv :: rat
  assumes "0 \<le> iv" "iv \<le> MAX_POLL_INTERVAL"
  shows "iv \<le> min (iv * POLL_BACKOFF_MULTIPLIER) MAX_POLL_INTERVAL"
  using assms by (simp add: POLL_BACKOFF_MULTIPLIER_def)

lemma poll_loop_sleeps_sorted:
  "poll_loop fuel env pr mw st i t0 iv = Some (r, t, sleeps) \<Longrightarrow>
   0 \<le> iv \<Longrightarrow> iv \<le> MAX_POLL_INTERVAL \<Longrightarrow>
   sorted sleeps \<and> (\<forall>x\<in>set sleeps. iv \<le> x \<and> x \<le> MAX_POLL_INTERVAL)"
proof (induction fuel arbitrary: i t0 iv sleeps)
  case 0
  then show ?case by simp
next
  case (Suc fuel)
  from Suc.prems(1) show ?case
  proof (cases rule: poll_loop_Suc_cases)
    case stop
    then show ?thesis by simp
  next
    case (continue sl)
    let ?iv' = "min (iv * POLL_BACKOFF_MULTIPLIER) MAX_POLL_INTERVAL"
    have ge: "iv \<le> ?iv'" using Suc.prems(2,3) by (rule next_interval_ge)
    then have "0 \<le> ?iv'" using Suc.prems(2) by linarith
    moreover have "?iv' \<le> MAX_POLL_INTERVAL" by simp
    ultimately have "sorted sl \<and> (\<forall>x\<in>set sl. ?iv' \<le> x \<and> x \<le> MAX_POLL_INTERVAL)"
      using Suc.IH [OF continue(2)] by blast
    then show ?thesis using continue(1) ge Suc.prems(3) by auto
  qed
qed

lemma poll_loop_terminates:
  assumes lat: "\<forall>j. 0 \<le> snd (env j)"
  shows "INITIAL_POLL_INTERVAL \<le> iv \<Longrightarrow>
         of_int mw \<le> (t0 - st) + INITIAL_POLL_INTERVAL * of_nat fuel \<Longrightarrow>
         \<exists>res. poll_loop (Suc fuel) env pr mw st i t0 iv = Some res"
proof (induction fuel arbitrary: i t0 iv)
  case 0
  then have "of_int mw \<le> t0 - st" by simp
  then show ?case by (simp add: Let_def)
next
  case (Suc fuel)
  show ?case
  proof (cases "of_int mw \<le> t0 - st")
    case True
    then show ?thesis by (simp add: Let_def)
  next
    case False
    let ?iv' = "min (iv * POLL_BACKOFF_MULTIPLIER) MAX_POLL_INTERVAL"
    let ?t' = "t0 + snd (env i) + iv"
    have iv': "INITIAL_POLL_INTERVAL \<le> ?iv'"
      using Suc.prems(1)
      by (simp add: POLL_BACKOFF_MULTIPLIER_def MAX_POLL_INTERVAL_def INITIAL_POLL_INTERVAL_def)
    have "0 \<le> snd (env i)" using lat by blast
    then have "of_int mw \<le> (?t' - st) + INITIAL_POLL_INTERVAL * of_nat fuel"
      using Suc.prems by (simp add: algebra_simps INITIAL_POLL_INTERVAL_def)
    from Suc.IH [OF iv' this] obtain res where
      rec: "poll_loop (Suc fuel) env pr mw st (Suc i) ?t' ?iv' = Some res" by blast
    show ?thesis
    proof (cases "poll_tick pr (fst (env i))")
      case (Returned uri)
      with False show ?thesis by (subst poll_loop.simps) (simp add: Let_def)
    next
      case (Raised e)
      with False show ?thesis by (subst poll_loop.simps) (simp add: Let_def)
    next
      case NotDone
      with False rec show ?thesis
        by (subst poll_loop.simps) (simp add: Let_def split: prod.splits)
    qed
  qed
qed

text \<open>
  C6. Within one poll run the sleeps start at 10 seconds, each next one is the previous
  one times 1.2 capped at 30 seconds, and the sequence never decreases and never exceeds
  30 seconds. (Seconds are exact rationals here.) Every run ends, given a clock that does
  not go backwards: at most \<open>max_wait_time / 10 + 1\<close> ticks are made.
\<close>

theorem poll_sleep_intervals:
  "(poll_operation fuel env py_repr max_wait_time t0 = Some (r, t, sleeps) \<longrightarrow>
      (sleeps \<noteq> [] \<longrightarrow> sleeps ! 0 = 10) \<and>
      (\<forall>k. Suc k < length sleeps \<longrightarrow>
         sleeps ! Suc k = min (sleeps ! k * (12 / 10)) 30 \<and> sleeps ! k \<le> sleeps ! Suc k) \<and>
      (\<forall>x\<in>set sleeps. 10 \<le> x \<and> x \<le> 30) \<and>
      sorted sleeps)
   \<and> ((\<forall>j. 0 \<le> snd (env j)) \<and> (of_int max_wait_time :: rat) \<le> 10 * of_nat fuel \<longrightarrow>
        (\<exists>res. poll_operation (Suc fuel) env py_repr max_wait_time t0 = Some res))"
proof (rule conjI; rule impI)
  assume run: "poll_operation fuel env py_repr max_wait_time t0 = Some (r, t, sleeps)"
  then have loop: "poll_loop fuel env py_repr max_wait_time t0 0 t0 INITIAL_POLL_INTERVAL
                     = Some (r, t, sleeps)"
    by (simp add: poll_operation_def)
  have shape: "(sleeps \<noteq> [] \<longrightarrow> sleeps ! 0 = 10) \<and>
     (\<forall>k. Suc k < length sleeps \<longrightarrow> sleeps ! Suc k = min (sleeps ! k * (12 / 10)) 30)"
    using poll_loop_sleeps_shape [OF loop]
    by (simp add: INITIAL_POLL_INTERVAL_def POLL_BACKOFF_MULTIPLIER_def MAX_POLL_INTERVAL_def)
  have srt: "sorted sleeps" and bnd: "\<forall>x\<in>set sleeps. 10 \<le> x \<and> x \<le> 30"
    using poll_loop_sleeps_sorted [OF loop]
    by (simp_all add: INITIAL_POLL_INTERVAL_def MAX_POLL_INTERVAL_def)
  have mono: "sleeps ! k \<le> sleeps ! Suc k" if "Suc k < length sleeps" for k
    using srt that by (simp add: sorted_nth_mono)
  show "(sleeps \<noteq> [] \<longrightarrow> sleeps ! 0 = 10) \<and>
      (\<forall>k. Suc k < length sleeps \<longrightarrow>
         sleeps ! Suc k = min (sleeps ! k * (12 / 10)) 30 \<and> sleeps ! k \<le> sleeps ! Suc k) \<and>
      (\<forall>x\<in>set sleeps. 10 \<le> x \<and> x \<le> 30) \<and>
      sorted sleeps"
    using shape mono bnd srt by blast
next
  assume h: "(\<forall>j. 0 \<le> snd (env j)) \<and> (of_int max_wait_time :: rat) \<le> 10 * of_nat fuel"
  then have "of_int max_wait_time \<le> (t0 - t0) + INITIAL_POLL_INTERVAL * of_nat fuel"
    by (simp add: INITIAL_POLL_INTERVAL_def)
  with h show "\<exists>res. poll_operation (Suc fuel) env py_repr max_wait_time t0 = Some res"
    unfolding poll_operation_def
    by (intro poll_loop_terminates) simp_all
qed

theorem poll_sleep_intervals_witness:
  "poll_operation (Suc (Suc (Suc 0))) env_two_pending example_repr 600 0
     = Some (Inr (JStr ''files/abc123''), 25, [10, 12])
   \<and> [10, 12 :: rat] ! 0 = 10
   \<and> [10, 12 :: rat] ! Suc 0 = min ([10, 12] ! 0 * (12 / 10)) 30
   \<and> sorted [10, 12 :: rat]
   \<and> (\<forall>j. 0 \<le> snd (env_two_pending j)) \<and> (of_int 600 :: rat) \<le> 10 * of_nat 60
   \<and> (\<exists>res. poll_operation (Suc 60) env_two_pending example_repr 600 0 = Some res)"
proof -
  have run: "poll_operation (Suc (Suc (Suc 0))) env_two_pending example_repr 600 0
     = Some (Inr (JStr ''files/abc123''), 25, [10, 12])"
    by (simp add: poll_operation_def env_two_pending_def poll_tick_def poll_body_def
        try_extract_def extract_video_uri_def raise_bind_def pending_body_def done_body_def
        is_success_status_def INITIAL_POLL_INTERVAL_def POLL_BACKOFF_MULTIPLIER_def
        MAX_POLL_INTERVAL_def Let_def)
  have h: "(\<forall>j. 0 \<le> snd (env_two_pending j)) \<and> (of_int 600 :: rat) \<le> 10 * of_nat 60"
    by (simp add: env_two_pending_def)
  note a = conjunct1 [OF poll_sleep_intervals
             [where fuel = "Suc (Suc (Suc 0))" and env = env_two_pending
                and py_repr = example_repr and max_wait_time = 600 and ?t0.0 = 0
                and r = "Inr (JStr ''files/abc123'')" and t = 25 and sleeps = "[10, 12]"]]
  note b = conjunct2 [OF poll_sleep_intervals
             [where fuel = 60 and env = env_two_pending and py_repr = example_repr
                and max_wait_time = 600 and ?t0.0 = 0]]
  have ends: "\<exists>res. poll_operation (Suc 60) env_two_pending example_repr 600 0 = Some res"
    using mp [OF b h] .
  from mp [OF a run] run h ends show ?thesis by simp
qed

lemma poll_tick_status_error:
  "is_status_error_reply g \<Longrightarrow> poll_tick pr g = NotDone"
  by (cases g) (simp_all add: poll_tick_def)

lemma poll_loop_status_errors_time_out:
  assumes err: "\<forall>j. is_status_error_reply (fst (env j))"
      and lat: "\<forall>j. 0 \<le> snd (env j)"
  shows "INITIAL_POLL_INTERVAL \<le> iv \<Longrightarrow>
         of_int mw \<le> (t0 - st) + INITIAL_POLL_INTERVAL * of_nat fuel \<Longrightarrow>
         \<exists>elapsed t sleeps.
           poll_loop (Suc fuel) env pr mw st i t0 iv =
             Some (Inl (TimeoutError (''Operation timed out after '' @ str_int mw @ '' seconds'')
                          (Some elapsed)), t, sleeps)
           \<and> of_int mw \<le> elapsed"
proof (induction fuel arbitrary: i t0 iv)
  case 0
  then have "of_int mw \<le> t0 - st" by simp
  then show ?case
    by (intro exI [of _ "t0 - st"] exI [of _ t0] exI [of _ "[]"]) (simp add: Let_def)
next
  case (Suc fuel)
  show ?case
  proof (cases "of_int mw \<le> t0 - st")
    case True
    then show ?thesis
      by (intro exI [of _ "t0 - st"] exI [of _ t0] exI [of _ "[]"]) (simp add: Let_def)
  next
    case False
    have tick: "poll_tick pr (fst (env i)) = NotDone"
      using err by (simp add: poll_tick_status_error)
    let ?iv' = "min (iv * POLL_BACKOFF_MULTIPLIER) MAX_POLL_INTERVAL"
    let ?t' = "t0 + snd (env i) + iv"
    have iv': "INITIAL_POLL_INTERVAL \<le> ?iv'"
      using Suc.prems(1)
      by (simp add: POLL_BACKOFF_MULTIPLIER_def MAX_POLL_INTERVAL_def INITIAL_POLL_INTERVAL_def)
    have "0 \<le> snd (env i)" using lat by blast
    then have "of_int mw \<le> (?t' - st) + INITIAL_POLL_INTERVAL * of_nat fuel"
      using Suc.prems by (simp add: algebra_simps INITIAL_POLL_INTERVAL_def)
    from Suc.IH [OF iv' this] obtain elapsed t sleeps where
      rec: "poll_loop (Suc fuel) env pr mw st (Suc i) ?t' ?iv' =
         Some (Inl (TimeoutError (''Operation timed out after '' @ str_int mw @ '' seconds'')
                      (Some elapsed)), t, sleeps)" and el: "of_int mw \<le> elapsed"
      by blast
    have "poll_loop (Suc (Suc fuel)) env pr mw st i t0 iv =
         Some (Inl (TimeoutError (''Operation timed out after '' @ str_int mw @ '' seconds'')
                      (Some elapsed)), t, iv # sleeps)"
      using False tick rec by (subst poll_loop.simps) (simp add: Let_def)
    with el show ?thesis by blast
  qed
qed

text \<open>
  What the loop does catch: a tick answered with a non-2xx status (the
  \<^verbatim>\<open>HTTPStatusError\<close> of \<^verbatim>\<open>raise_for_status\<close>) is swallowed and treated as "not yet
  done": the loop sleeps the current interval and goes on with the next tick. When every
  tick is answered so, the run ends with the \<^verbatim>\<open>TimeoutError\<close>, and with nothing else.
\<close>

lemma poll_status_error_swallowed:
  "(is_status_error_reply (fst (env i)) \<and> t0 - start_time < of_int max_wait_time \<longrightarrow>
      poll_loop (Suc fuel) env py_repr max_wait_time start_time i t0 iv =
        (case poll_loop fuel env py_repr max_wait_time start_time (Suc i)
                (t0 + snd (env i) + iv)
                (min (iv * POLL_BACKOFF_MULTIPLIER) MAX_POLL_INTERVAL) of
           None \<Rightarrow> None
         | Some (r, t, sleeps) \<Rightarrow> Some (r, t, iv # sleeps)))
   \<and> ((\<forall>j. is_status_error_reply (fst (env j))) \<and> (\<forall>j. 0 \<le> snd (env j))
        \<and> (of_int max_wait_time :: rat) \<le> 10 * of_nat fuel \<longrightarrow>
      (\<exists>elapsed t sleeps.
         poll_operation (Suc fuel) env py_repr max_wait_time t0 =
           Some (Inl (TimeoutError
                        (''Operation timed out after '' @ str_int max_wait_time @ '' seconds'')
                        (Some elapsed)), t, sleeps)
         \<and> of_int max_wait_time \<le> elapsed))"
proof (intro conjI impI)
  assume "is_status_error_reply (fst (env i)) \<and> t0 - start_time < of_int max_wait_time"
  then have "poll_tick py_repr (fst (env i)) = NotDone"
    and "\<not> of_int max_wait_time \<le> t0 - start_time"
    by (simp_all add: poll_tick_status_error)
  then show "poll_loop (Suc fuel) env py_repr max_wait_time start_time i t0 iv =
        (case poll_loop fuel env py_repr max_wait_time start_time (Suc i)
                (t0 + snd (env i) + iv)
                (min (iv * POLL_BACKOFF_MULTIPLIER) MAX_POLL_INTERVAL) of
           None \<Rightarrow> None
         | Some (r, t, sleeps) \<Rightarrow> Some (r, t, iv # sleeps))"
    by (simp add: Let_def)
next
  assume h: "(\<forall>j. is_status_error_reply (fst (env j))) \<and> (\<forall>j. 0 \<le> snd (env j))
        \<and> (of_int max_wait_time :: rat) \<le> 10 * of_nat fuel"
  then have "of_int max_wait_time \<le> (t0 - t0) + INITIAL_POLL_INTERVAL * of_nat fuel"
    by (simp add: INITIAL_POLL_INTERVAL_def)
  with h show "\<exists>elapsed t sleeps.
         poll_operation (Suc fuel) env py_repr max_wait_time t0 =
           Some (Inl (TimeoutError
                        (''Operation timed out after '' @ str_int max_wait_time @ '' seconds'')
                        (Some elapsed)), t, sleeps)
         \<and> of_int max_wait_time \<le> elapsed"
    unfolding poll_operation_def
    by (intro poll_loop_status_errors_time_out) simp_all
qed

lemma poll_status_error_swallowed_example:
  "is_status_error_reply (fst (env_503 0)) \<and> (0 :: rat) - 0 < of_int 25
   \<and> (\<forall>j. is_status_error_reply (fst (env_503 j))) \<and> (\<forall>j. 0 \<le> snd (env_503 j))
   \<and> (of_int 25 :: rat) \<le> 10 * of_nat 3
   \<and> poll_operation (Suc 3) env_503 example_repr 25 0 =
       Some (Inl (TimeoutError ''Operation timed out after 25 seconds'' (Some (182 / 5))),
             182 / 5, [10, 12, 72 / 5])"
proof -
  have h: "(\<forall>j. is_status_error_reply (fst (env_503 j))) \<and> (\<forall>j. 0 \<le> snd (env_503 j))
           \<and> (of_int 25 :: rat) \<le> 10 * of_nat 3"
    by (simp add: env_503_def is_success_status_def)
  have run: "poll_operation (Suc (Suc (Suc (Suc 0)))) env_503 example_repr 25 0 =
       Some (Inl (TimeoutError ''Operation timed out after 25 seconds'' (Some (182 / 5))),
             182 / 5, [10, 12, 72 / 5])"
    by (simp add: poll_operation_def env_503_def poll_tick_def is_success_status_def
        INITIAL_POLL_INTERVAL_def POLL_BACKOFF_MULTIPLIER_def MAX_POLL_INTERVAL_def
        str_int_def str_nat.simps Let_def)
  have n: "Suc 3 = Suc (Suc (Suc (Suc 0)))" by simp
  from poll_status_error_swallowed [of env_503 0 0 0 25 3 example_repr 10] h run
  show ?thesis unfolding n by (simp add: env_503_def is_success_status_def)
qed

text \<open>
  C4 fails on the code. The handler of the loop, whose message is "Polling error: ...,
  retrying...", is \<^verbatim>\<open>except httpx.HTTPStatusError\<close>: a transport-level error raised by
  the GET of a tick is not caught. When the first GET is refused and the second would
  find the operation done, the run ends with the transport error at once, without a
  sleep and without a second tick, long before \<open>max_wait_time\<close>; when the first GET is
  answered with status 503 instead, the loop sleeps, retries and returns the URI.
\<close>

theorem poll_transport_error_aborts:
  "poll_operation (Suc (Suc 0)) env_refused_then_done example_repr 600 0
     = Some (Inl (RequestError ''connection refused''), 0, [])
   \<and> poll_operation (Suc (Suc 0)) env_503_then_done example_repr 600 0
     = Some (Inr (JStr ''files/abc123''), 11, [10])"
  by (simp add: poll_operation_def env_refused_then_done_def env_503_then_done_def
      poll_tick_def poll_body_def try_extract_def extract_video_uri_def raise_bind_def
      done_body_def is_success_status_def INITIAL_POLL_INTERVAL_def
      POLL_BACKOFF_MULTIPLIER_def MAX_POLL_INTERVAL_def Let_def)

lemma try_extract_KeyError:
  "extract_video_uri data = Inl (KeyError k) \<Longrightarrow>
   try_extract pr data =
     Raised (APIError (''Could not extract video URI: '' @ pr k) None (Some data))"
  by (simp add: try_extract_def)

text \<open>
  C5 fails on the code: a body with \<open>done\<close> true and an empty list of samples makes the
  subscript \<^verbatim>\<open>[0]\<close> raise an \<^verbatim>\<open>IndexError\<close>, which the \<^verbatim>\<open>except KeyError\<close> handler
  does not catch: the poller raises the \<^verbatim>\<open>IndexError\<close>, not an \<^verbatim>\<open>APIError\<close> with
  the body attached.
\<close>

theorem poll_empty_samples_raises_IndexError:
  "poll_tick example_repr (GetResponse 200 [] (Inr empty_samples_body))
     = Raised (IndexError ''list index out of range'')
   \<and> poll_operation (Suc 0) env_empty_samples example_repr 600 0
     = Some (Inl (IndexError ''list index out of range''), 1, [])"
  by (simp add: poll_operation_def env_empty_samples_def poll_tick_def poll_body_def
      try_extract_def extract_video_uri_def raise_bind_def empty_samples_body_def
      is_success_status_def Let_def)

section \<open>Properties of the success classification\<close>

text \<open>
  C10. A response counts as successful only when \<open>success\<close> holds and \<open>video_path\<close> is
  set. The statistics of \<open>generate_batch\<close> and the two selections of \<open>BatchResult\<close>
  agree with that: the successful count is the number of responses selected as
  successful, the failed count the number selected as failed, a response with \<open>success\<close>
  true and no \<open>video_path\<close> is selected as failed, and every result is in exactly one of
  the two selections.
\<close>

theorem is_success_classification:
  "is_success r = (success r \<and> video_path r \<noteq> None)
   \<and> successful (batch_result prompts rs t)
       = int (length (get_successful_videos (batch_result prompts rs t)))
   \<and> failed (batch_result prompts rs t)
       = int (length (get_failed_videos (batch_result prompts rs t)))
   \<and> (\<forall>x \<in> set rs. success x \<and> video_path x = None \<longrightarrow>
          x \<in> set (get_failed_videos (batch_result prompts rs t))
          \<and> x \<notin> set (get_successful_videos (batch_result prompts rs t)))
   \<and> (\<forall>x \<in> set rs.
          (x \<in> set (get_successful_videos (batch_result prompts rs t)))
          \<noteq> (x \<in> set (get_failed_videos (batch_result prompts rs t))))
   \<and> mset (get_successful_videos (batch_result prompts rs t))
       + mset (get_failed_videos (batch_result prompts rs t)) = mset rs"
proof -
  let ?b = "batch_result prompts rs t"
  have res: "results ?b = rs" by (simp add: batch_result_def Let_def)
  have len: "length (filter (\<lambda>r. \<not> is_success r) rs)
             = length rs - length (filter (\<lambda>r. is_success r) rs)"
    using sum_length_filter_compl [of "\<lambda>r. is_success r" rs] by simp
  have le: "length (filter (\<lambda>r. is_success r) rs) \<le> length rs" by simp
  have f: "failed ?b = int (length (get_failed_videos ?b))"
    using len le by (simp add: batch_result_def Let_def get_failed_videos_def of_nat_diff)
  have s: "successful ?b = int (length (get_successful_videos ?b))"
    by (simp add: batch_result_def Let_def get_successful_videos_def)
  have m: "mset (get_successful_videos ?b) + mset (get_failed_videos ?b) = mset rs"
    unfolding get_successful_videos_def get_failed_videos_def res by simp
  show ?thesis
    using f s m
    by (auto simp: is_success_def get_successful_videos_def get_failed_videos_def res)
qed

theorem is_success_classification_witness:
  "response_without_path \<in> set [response_ok, response_without_path]
   \<and> success response_without_path \<and> video_path response_without_path = None
   \<and> \<not> is_success response_without_path
   \<and> successful (batch_result [''cat'', ''dog''] [response_ok, response_without_path] 50) = 1
   \<and> failed (batch_result [''cat'', ''dog''] [response_ok, response_without_path] 50) = 1
   \<and> get_failed_videos (batch_result [''cat'', ''dog''] [response_ok, response_without_path] 50)
       = [response_without_path]"
proof -
  have e: "get_failed_videos (batch_result [''cat'', ''dog''] [response_ok, response_without_path] 50)
       = [response_without_path]"
    "get_successful_videos (batch_result [''cat'', ''dog''] [response_ok, response_without_path] 50)
       = [response_ok]"
    by (simp_all add: get_failed_videos_def get_successful_videos_def batch_result_def Let_def
        is_success_def response_ok_def response_without_path_def)
  from is_success_classification
         [of response_without_path "[''cat'', ''dog'']" "[response_ok, response_without_path]" 50]
  show ?thesis
    unfolding e by (simp add: response_without_path_def)
qed

section \<open>Properties of the artifact downloader\<close>

lemma stream_to_file_written:
  "fst (stream_to_file cs written n) = written @ concat cs"
  by (induction cs arbitrary: written n) simp_all

lemma DownloadError_not_HTTPError: "\<not> is_HTTPError (DownloadError msg u b)"
  by (simp add: DownloadError_def)

lemma download_video_once_raises_DownloadError:
  assumes "download_video_once pr env uri out w = (Inl e, w')"
  shows "\<exists>msg. e = DownloadError msg (Some uri) None"
proof -
  obtain r1 w1 where t: "download_try env uri out w = (r1, w1)" by (cases "download_try env uri out w")
  show ?thesis
  proof (cases r1)
    case (Inr p)
    with t assms show ?thesis by (simp add: download_video_once_def)
  next
    case (Inl e1)
    with t assms show ?thesis
      by (cases e1) (auto simp: download_video_once_def)
  qed
qed

lemma retry_from_no_HTTPError:
  assumes "\<And>n w e w'. f n w = (Inl e, w') \<Longrightarrow> \<not> is_HTTPError e"
  shows "retry_from k n f w = (f n w, n)"
proof (cases k)
  case 0
  then show ?thesis by simp
next
  case (Suc k')
  obtain r w' where fw: "f n w = (r, w')" by (cases "f n w")
  show ?thesis
  proof (cases r)
    case (Inl e)
    with fw assms have "\<not> is_HTTPError e" by blast
    with Suc fw Inl show ?thesis by simp
  next
    case (Inr v)
    with Suc fw show ?thesis by simp
  qed
qed

lemma download_video_single_attempt:
  "download_video pr net base uri out w
     = (download_video_once pr (net (parse_video_uri uri base) 1) uri out w, 1)"
  unfolding download_video_def with_retry_def
proof (rule retry_from_no_HTTPError)
  fix n w e w'
  assume "download_video_once pr (net (parse_video_uri uri base) n) uri out w = (Inl e, w')"
  then obtain msg where "e = DownloadError msg (Some uri) None"
    using download_video_once_raises_DownloadError by blast
  then show "\<not> is_HTTPError e" by (simp add: DownloadError_not_HTTPError)
qed

lemma download_try_other_paths:
  "download_try env uri out w = (r, w') \<Longrightarrow> q \<noteq> out \<Longrightarrow> files w' q = files w q"
  by (auto simp: download_try_def verify_download_def unlink_def Let_def
           split: option.splits sum.splits if_splits)

lemma download_try_opened:
  assumes "stream_opened env"
  shows "download_try env uri out w =
     (let w1 = w\<lparr>clock := clock w + duration env, files := (files w)(out \<mapsto> concat (chunks env))\<rparr>
      in case stream_error env of
           Some m \<Rightarrow> (Inl (RequestError m), w1)
         | None \<Rightarrow>
             if concat (chunks env) = []
             then (Inl (DownloadError ''Downloaded file is empty'' (Some uri) None), unlink out w1)
             else (Inr out, w1))"
  using assms
  by (auto simp: stream_opened_def download_try_def verify_download_def Let_def
        stream_to_file_written path_exists_def stat_size_def
        split: option.splits sum.splits)

lemma download_try_not_opened:
  assumes "\<not> stream_opened env" and "download_try env uri out w = (r, w')"
  shows "files w' = files w \<and> (\<exists>e. r = Inl e)
         \<and> ((\<exists>c m. r = Inl (HTTPStatusError c m))
              \<longleftrightarrow> connect_error env = None \<and> \<not> is_success_status (status_code env))"
  using assms
  by (auto simp: stream_opened_def download_try_def Let_def
        split: option.splits sum.splits if_splits)


lemma download_video_once_Inr:
  "download_try env uri out w = (Inr p, w1) \<Longrightarrow>
   download_video_once pr env uri out w = (Inr p, w1)"
  by (simp add: download_video_once_def)

lemma download_video_once_status:
  "download_try env uri out w = (Inl (HTTPStatusError c m), w1) \<Longrightarrow>
   download_video_once pr env uri out w =
     (Inl (DownloadError (''Download failed with status '' @ str_nat c) (Some uri) None), w1)"
  by (simp add: download_video_once_def)

lemma download_video_once_other:
  "download_try env uri out w = (Inl e, w1) \<Longrightarrow> \<not> is_HTTPStatusError e \<Longrightarrow>
   download_video_once pr env uri out w =
     (Inl (DownloadError (''Download failed: '' @ str_exn pr e) (Some uri) None),
      if path_exists out w1 then unlink out w1 else w1)"
  by (cases e) (simp_all add: download_video_once_def)

lemma files_after_cleanup:
  "files (if path_exists out w1 then unlink out w1 else w1) out = None"
  "q \<noteq> out \<Longrightarrow> files (if path_exists out w1 then unlink out w1 else w1) q = files w1 q"
  by (simp_all add: path_exists_def unlink_def)

text \<open>
  C8. The post-state of \<^verbatim>\<open>_download_video\<close> is atomic at the target path. A completed
  stream of zero bytes deletes the file and raises \<^verbatim>\<open>DownloadError\<close>; an exception
  during streaming deletes the partly written file and raises \<^verbatim>\<open>DownloadError\<close>.
  Whenever the call raises, it raises a \<^verbatim>\<open>DownloadError\<close> and the target path holds no
  file, or (after an HTTP error status, before anything was written) exactly what it
  held before the call; when it returns, the file holds all the bytes streamed, and
  there is at least one. No other path is touched.
\<close>

theorem download_video_atomic:
  assumes run: "download_video py_repr net base uri out w = ((r, w'), attempts)"
  shows "(stream_opened (net (parse_video_uri uri base) 1)
            \<and> stream_error (net (parse_video_uri uri base) 1) = None
            \<and> concat (chunks (net (parse_video_uri uri base) 1)) = [] \<longrightarrow>
            r = Inl (DownloadError
                      (''Download failed: '' @ str_exn py_repr
                         (DownloadError ''Downloaded file is empty'' (Some uri) None))
                      (Some uri) None)
            \<and> files w' out = None)
       \<and> (\<forall>m. stream_opened (net (parse_video_uri uri base) 1)
               \<and> stream_error (net (parse_video_uri uri base) 1) = Some m \<longrightarrow>
               r = Inl (DownloadError (''Download failed: '' @ m) (Some uri) None)
               \<and> files w' out = None)
       \<and> (\<forall>e. r = Inl e \<longrightarrow>
               (\<exists>msg. e = DownloadError msg (Some uri) None)
               \<and> (files w' out = None
                   \<or> (files w' out = files w out
                       \<and> connect_error (net (parse_video_uri uri base) 1) = None
                       \<and> \<not> is_success_status (status_code (net (parse_video_uri uri base) 1)))))
       \<and> (\<forall>p. r = Inr p \<longrightarrow>
               p = out
               \<and> files w' out = Some (concat (chunks (net (parse_video_uri uri base) 1)))
               \<and> concat (chunks (net (parse_video_uri uri base) 1)) \<noteq> [])
       \<and> (\<forall>q. q \<noteq> out \<longrightarrow> files w' q = files w q)"
proof -
  let ?env = "net (parse_video_uri uri base) 1"
  let ?w1 = "w\<lparr>clock := clock w + duration ?env,
               files := (files w)(out \<mapsto> concat (chunks ?env))\<rparr>"
  let ?C1 = "stream_opened ?env \<and> stream_error ?env = None \<and> concat (chunks ?env) = [] \<longrightarrow>
            r = Inl (DownloadError
                      (''Download failed: '' @ str_exn py_repr
                         (DownloadError ''Downloaded file is empty'' (Some uri) None))
                      (Some uri) None)
            \<and> files w' out = None"
  let ?C2 = "\<forall>m. stream_opened ?env \<and> stream_error ?env = Some m \<longrightarrow>
               r = Inl (DownloadError (''Download failed: '' @ m) (Some uri) None)
               \<and> files w' out = None"
  let ?C3 = "\<forall>e. r = Inl e \<longrightarrow>
               (\<exists>msg. e = DownloadError msg (Some uri) None)
               \<and> (files w' out = None
                   \<or> (files w' out = files w out
                       \<and> connect_error ?env = None
                       \<and> \<not> is_success_status (status_code ?env)))"
  let ?C4 = "\<forall>p. r = Inr p \<longrightarrow>
               p = out \<and> files w' out = Some (concat (chunks ?env))
               \<and> concat (chunks ?env) \<noteq> []"
  let ?C5 = "\<forall>q. q \<noteq> out \<longrightarrow> files w' q = files w q"
  have once: "download_video_once py_repr ?env uri out w = (r, w')"
    using run unfolding download_video_single_attempt by (metis fst_conv)
  have derr: "\<exists>msg. e = DownloadError msg (Some uri) None" if "r = Inl e" for e
    using once that download_video_once_raises_DownloadError by blast
  have raised: "?C1 \<and> ?C2 \<and> ?C3 \<and> ?C4"
    if r: "r = Inl e0" and gone: "files w' out = None"
      and c1: "stream_opened ?env \<and> stream_error ?env = None \<and> concat (chunks ?env) = [] \<longrightarrow>
               e0 = DownloadError
                      (''Download failed: '' @ str_exn py_repr
                         (DownloadError ''Downloaded file is empty'' (Some uri) None))
                      (Some uri) None"
      and c2: "\<forall>m. stream_opened ?env \<and> stream_error ?env = Some m \<longrightarrow>
               e0 = DownloadError (''Download failed: '' @ m) (Some uri) None"
    for e0
  proof (intro conjI)
    show ?C1 using r gone c1 by simp
    show ?C2 using r gone c2 by simp
    show ?C3 using derr gone by simp
    show ?C4 using r by simp
  qed
  show ?thesis
  proof (cases "stream_opened ?env")
    case True
    note opened = download_try_opened [OF True, of uri out w]
    show ?thesis
    proof (cases "stream_error ?env")
      case (Some m)
      have "download_try ?env uri out w = (Inl (RequestError m), ?w1)"
        using opened Some by (simp add: Let_def)
      from download_video_once_other [OF this, of py_repr] once
      have r: "r = Inl (DownloadError (''Download failed: '' @ m) (Some uri) None)"
        and w': "w' = (if path_exists out ?w1 then unlink out ?w1 else ?w1)"
        by simp_all
      have gone: "files w' out = None" unfolding w' by (rule files_after_cleanup)
      have c5: ?C5 unfolding w' by (simp add: unlink_def)
      have four: "?C1 \<and> ?C2 \<and> ?C3 \<and> ?C4"
        using r gone by (rule raised) (use Some in simp_all)
      show ?thesis using four c5 by (elim conjE, intro conjI)
    next
      case None
      show ?thesis
      proof (cases "concat (chunks ?env) = []")
        case empty: True
        have "download_try ?env uri out w =
                (Inl (DownloadError ''Downloaded file is empty'' (Some uri) None),
                 unlink out ?w1)"
          using opened None empty by (simp add: Let_def)
        from download_video_once_other [OF this, of py_repr] once
        have r: "r = Inl (DownloadError
                      (''Download failed: '' @ str_exn py_repr
                         (DownloadError ''Downloaded file is empty'' (Some uri) None))
                      (Some uri) None)"
          and w': "w' = (if path_exists out (unlink out ?w1) then unlink out (unlink out ?w1)
                         else unlink out ?w1)"
          by (simp_all add: DownloadError_def)
        have gone: "files w' out = None" unfolding w' by (rule files_after_cleanup)
        have c5: ?C5 unfolding w' by (simp add: files_after_cleanup unlink_def)
        have four: "?C1 \<and> ?C2 \<and> ?C3 \<and> ?C4"
          using r gone by (rule raised) (use None in simp_all)
        show ?thesis using four c5 by (elim conjE, intro conjI)
      next
        case nonempty: False
        have "download_try ?env uri out w = (Inr out, ?w1)"
          using opened None nonempty by (simp add: Let_def)
        from download_video_once_Inr [OF this, of py_repr] once
        have r: "r = Inr out" and w': "w' = ?w1" by simp_all
        show ?thesis
        proof (intro conjI)
          show ?C1 using nonempty by (simp del: concat_eq_Nil_conv)
          show ?C2 using None by simp
          show ?C3 using r by simp
          show ?C4 using r w' nonempty by (simp del: concat_eq_Nil_conv)
          show ?C5 using w' by simp
        qed
      qed
    qed
  next
    case False
    obtain r1 w1 where t: "download_try ?env uri out w = (r1, w1)"
      by (cases "download_try ?env uri out w")
    from download_try_not_opened [OF False t]
    have same: "files w1 = files w" and ex: "\<exists>e. r1 = Inl e"
      and status: "(\<exists>c m. r1 = Inl (HTTPStatusError c m))
              \<longleftrightarrow> connect_error ?env = None \<and> \<not> is_success_status (status_code ?env)"
      by blast+
    from ex obtain e1 where e1: "r1 = Inl e1" by blast
    show ?thesis
    proof (cases "is_HTTPStatusError e1")
      case True
      then obtain c m where cm: "e1 = HTTPStatusError c m" by (cases e1) simp_all
      from download_video_once_status [of ?env uri out w c m w1 py_repr] t e1 cm once
      have r: "r = Inl (DownloadError (''Download failed with status '' @ str_nat c) (Some uri) None)"
        and w': "w' = w1" by simp_all
      have st: "connect_error ?env = None \<and> \<not> is_success_status (status_code ?env)"
        using status e1 cm by blast
      show ?thesis
      proof (intro conjI)
        show ?C1 using False by simp
        show ?C2 using False by simp
        show ?C3 using derr w' same st by simp
        show ?C4 using r by simp
        show ?C5 using w' same by simp
      qed
    next
      case nonstatus: False
      from download_video_once_other [of ?env uri out w e1 w1 py_repr] t e1 nonstatus once
      have r: "r = Inl (DownloadError (''Download failed: '' @ str_exn py_repr e1) (Some uri) None)"
        and w': "w' = (if path_exists out w1 then unlink out w1 else w1)"
        by simp_all
      have gone: "files w' out = None" unfolding w' by (rule files_after_cleanup)
      have c5: ?C5 unfolding w' using same by (simp add: files_after_cleanup)
      have four: "?C1 \<and> ?C2 \<and> ?C3 \<and> ?C4"
        using r gone by (rule raised) (use False in simp_all)
      show ?thesis using four c5 by (elim conjE, intro conjI)
    qed
  qed
qed

theorem download_video_atomic_witness:
  "stream_opened (net_broken_stream (parse_video_uri ''files/abc123'' ''https://proxy/v1beta'') 1)
   \<and> stream_error (net_broken_stream (parse_video_uri ''files/abc123'' ''https://proxy/v1beta'') 1)
       = Some ''peer closed connection''
   \<and> fst (fst (download_video example_repr net_broken_stream ''https://proxy/v1beta''
                 ''files/abc123'' ''out/cat.mp4'' world0))
       = Inl (DownloadError ''Download failed: peer closed connection''
                (Some ''files/abc123'') None)
   \<and> files (snd (fst (download_video example_repr net_broken_stream ''https://proxy/v1beta''
                        ''files/abc123'' ''out/cat.mp4'' world0))) ''out/cat.mp4'' = None"
proof -
  let ?run = "download_video example_repr net_broken_stream ''https://proxy/v1beta''
                ''files/abc123'' ''out/cat.mp4'' world0"
  have run: "?run = ((fst (fst ?run), snd (fst ?run)), snd ?run)" by simp
  have opened: "stream_opened
      (net_broken_stream (parse_video_uri ''files/abc123'' ''https://proxy/v1beta'') 1)"
    and err: "stream_error
      (net_broken_stream (parse_video_uri ''files/abc123'' ''https://proxy/v1beta'') 1)
       = Some ''peer closed connection''"
    by (simp_all add: stream_opened_def net_broken_stream_def env_ok_def is_success_status_def)
  from download_video_atomic [OF run] opened err show ?thesis by simp
qed

section \<open>The retry decorator on the downloader\<close>

text \<open>
  For comparison: were the transport error to leave the decorated function as it is, the
  decorator would make a second attempt.
\<close>

lemma undecorated_try_would_be_retried:
  "snd (with_retry (\<lambda>n. download_try (net_refused_then_ok url n) uri out) world0) = 2"
  by (simp add: with_retry_def MAX_RETRY_ATTEMPTS_def numeral_2_eq_2 numeral_3_eq_3
      net_refused_then_ok_def env_ok_def download_try_def Let_def is_success_status_def
      verify_download_def path_exists_def stat_size_def)

text \<open>
  C9 fails on the code: the body of \<^verbatim>\<open>_download_video\<close> turns every exception,
  transport errors included, into a \<^verbatim>\<open>DownloadError\<close> before the decorator sees it, and a
  \<^verbatim>\<open>DownloadError\<close> is not an \<^verbatim>\<open>httpx.HTTPError\<close>: exactly one attempt is made. Here the
  first attempt is refused and a second one would have succeeded.
\<close>

theorem download_transport_error_not_retried:
  "download_video example_repr net_refused_then_ok ''https://proxy/v1beta'' ''files/abc123''
       ''out/cat.mp4'' world0
     = ((Inl (DownloadError ''Download failed: connection refused'' (Some ''files/abc123'') None),
         world0\<lparr>clock := 5\<rparr>), 1)
   \<and> fst (download_video_once example_repr
            (net_refused_then_ok (parse_video_uri ''files/abc123'' ''https://proxy/v1beta'') 2)
            ''files/abc123'' ''out/cat.mp4'' (world0\<lparr>clock := 6\<rparr>))
     = Inr ''out/cat.mp4''"
  by (simp add: download_video_single_attempt download_video_once_def download_try_def
      net_refused_then_ok_def env_ok_def world0_def path_exists_def Let_def
      is_success_status_def verify_download_def stat_size_def)


section \<open>Properties of the single-job orchestrator\<close>

lemma bind_step_raises: "m w = (Inl e, w1) \<Longrightarrow> bind_step m f w = (Inl e, w1)"
  by (simp add: bind_step_def)

lemma bind_step_returns: "m w = (Inr x, w1) \<Longrightarrow> bind_step m f w = f x w1"
  by (simp add: bind_step_def)

lemma bind_step_Inr_elim:
  assumes "bind_step m f w = (Inr y, w')"
  obtains x w1 where "m w = (Inr x, w1)" and "f x w1 = (Inr y, w')"
  using assms by (auto simp: bind_step_def split: prod.splits sum.splits)

lemma generate_video_async_handles:
  "generate_video_try g p out img (clock w) w = (Inl e, w1) \<Longrightarrow>
   generate_video_async g pr p out img w = (handle_exception pr e (clock w1 - clock w), w1)"
  by (simp add: generate_video_async_def)

lemma generate_video_async_passes:
  "generate_video_try g p out img (clock w) w = (Inr r, w1) \<Longrightarrow>
   generate_video_async g pr p out img w = (Inr r, w1)"
  by (simp add: generate_video_async_def)

lemma handle_exception_well_formed:
  assumes "well_formed_details (exn_details e)"
  shows "\<exists>d. handle_exception pr e t = Inr (failure_response pr e d t)
             \<and> (\<forall>d'. exn_details e = Some (PyJson (JObj d')) \<longrightarrow> d = Some d')"
  using assms
  by (cases "exn_details e" rule: well_formed_details.cases)
     (auto simp: handle_exception_def)

lemma handle_exception_Inr:
  assumes "handle_exception pr e t = Inr r"
  shows "\<exists>d. r = failure_response pr e d t"
  using assms
  by (auto simp: handle_exception_def Let_def split: sum.splits)

lemma handle_exception_ill_formed:
  assumes "\<not> well_formed_details (exn_details e)"
  shows "\<exists>m. handle_exception pr e t = Inl (PydanticValidationError m)"
  using assms
  by (cases "exn_details e" rule: well_formed_details.cases)
     (simp_all add: handle_exception_def)

lemma package_exceptions_well_formed:
  "well_formed_details (exn_details (VideoGenerationError c m d))"
  by simp

lemma step_raises_try:
  "step_raises g p out img w e w' \<Longrightarrow>
   generate_video_try g p out img st w = (Inl e, w')"
  by (induction rule: step_raises.induct)
     (simp_all add: generate_video_try_def bind_step_raises bind_step_returns)

lemma exn_message_prefix: "prefix (exn_message pr e) (str_exn pr e)"
  by (cases e) simp_all

lemma generate_video_async_failed_response:
  assumes t: "generate_video_try g p out img (clock w) w = (Inl e, w')"
      and wf: "well_formed_details (exn_details e)"
  shows "\<exists>r. generate_video_async g pr p out img w = (Inr r, w')
            \<and> success r = False \<and> video_path r = None
            \<and> error r = Some (str_exn pr e)
            \<and> (\<forall>d. exn_details e = Some (PyJson (JObj d)) \<longrightarrow> error_details r = Some d)"
proof -
  from handle_exception_well_formed [OF wf, of pr "clock w' - clock w"] obtain d where
    h: "handle_exception pr e (clock w' - clock w)
          = Inr (failure_response pr e d (clock w' - clock w))"
    and d: "\<forall>d'. exn_details e = Some (PyJson (JObj d')) \<longrightarrow> d = Some d'"
    by blast
  have "generate_video_async g pr p out img w
          = (Inr (failure_response pr e d (clock w' - clock w)), w')"
    using generate_video_async_handles [OF t, of pr] h by simp
  moreover have "success (failure_response pr e d (clock w' - clock w)) = False"
    and "video_path (failure_response pr e d (clock w' - clock w)) = None"
    and "error (failure_response pr e d (clock w' - clock w)) = Some (str_exn pr e)"
    and "error_details (failure_response pr e d (clock w' - clock w)) = d"
    by (simp_all add: failure_response_def)
  ultimately show ?thesis using d by auto
qed

lemma generate_video_async_returns:
  assumes "\<forall>e w'. generate_video_try g p out img (clock w) w = (Inl e, w')
             \<longrightarrow> well_formed_details (exn_details e)"
  shows "\<exists>r w1. generate_video_async g pr p out img w = (Inr r, w1)"
proof -
  obtain x w1 where t: "generate_video_try g p out img (clock w) w = (x, w1)"
    by (cases "generate_video_try g p out img (clock w) w")
  show ?thesis
  proof (cases x)
    case (Inl e)
    with t assms have "well_formed_details (exn_details e)" by blast
    with t Inl show ?thesis using generate_video_async_failed_response by blast
  next
    case (Inr r)
    with t show ?thesis using generate_video_async_passes by blast
  qed
qed




lemma download_video_once_Inr_try:
  assumes "download_video_once pr env uri out w = (Inr vp, w')"
  shows "download_try env uri out w = (Inr vp, w')"
proof -
  obtain r1 w1 where t: "download_try env uri out w = (r1, w1)"
    by (cases "download_try env uri out w")
  show ?thesis
  proof (cases r1)
    case (Inr q)
    with t assms show ?thesis by (simp add: download_video_once_Inr)
  next
    case (Inl e1)
    have "\<exists>e2 w2. download_video_once pr env uri out w = (Inl e2, w2)"
    proof (cases "is_HTTPStatusError e1")
      case True
      then obtain c m where "e1 = HTTPStatusError c m" by (cases e1) simp_all
      with t Inl show ?thesis using download_video_once_status by blast
    next
      case False
      with t Inl show ?thesis using download_video_once_other by blast
    qed
    with assms show ?thesis by simp
  qed
qed

lemma download_try_returns:
  assumes "download_try env uri out w = (Inr vp, w')"
  shows "vp = out \<and> (\<exists>data. files w' out = Some data \<and> data \<noteq> [])"
proof (cases "stream_opened env")
  case True
  from download_try_opened [OF True, of uri out w] assms show ?thesis
    by (auto simp: Let_def split: option.splits if_splits simp del: concat_eq_Nil_conv)
next
  case False
  from download_try_not_opened [OF False assms] show ?thesis by blast
qed

lemma download_video_returns:
  assumes "fst (download_video pr net base uri out w) = (Inr vp, w')"
  shows "vp = out \<and> (\<exists>data. files w' out = Some data \<and> data \<noteq> [])"
proof -
  from assms have "download_video_once pr (net (parse_video_uri uri base) 1) uri out w
                     = (Inr vp, w')"
    by (simp add: download_video_single_attempt)
  then have "download_try (net (parse_video_uri uri base) 1) uri out w = (Inr vp, w')"
    by (rule download_video_once_Inr_try)
  then show ?thesis by (rule download_try_returns)
qed

lemma generate_video_try_Inr:
  assumes "generate_video_try g p out img st w = (Inr r, w')"
  obtains vp opn vu n w4 outp where
    "do_download_video g vu outp w4 = (Inr vp, w')"
    "stat_size vp w' = Inr n"
    "r = success_response vp opn vu n (clock w' - st)"
  using assms unfolding generate_video_try_def
  by (elim bind_step_Inr_elim) (auto simp: return_step_def)


lemma str_exn_nonempty:
  "m \<noteq> [] \<Longrightarrow> str_exn pr (VideoGenerationError c m d) \<noteq> []"
  by simp

text \<open>
  C2, as amended. For every response of \<^verbatim>\<open>generate_video_async\<close> (with
  \<^verbatim>\<open>_download_video\<close> as its download step): if \<open>success\<close> is true, \<open>video_path\<close> is set,
  the file there is not empty and the recorded size is positive; if \<open>success\<close> is false,
  \<open>video_path\<close> is unset and \<open>error\<close> is set to the string of the exception caught, which
  is not empty when that exception is one of the package's own raised with a message.
\<close>

theorem generate_video_async_outcome:
  assumes dl: "do_download_video g
                 = (\<lambda>uri out w. fst (download_video py_repr net base uri out w))"
      and run: "generate_video_async g py_repr p out img w = (Inr r, w')"
  shows "(success r \<longrightarrow>
            (\<exists>vp data. video_path r = Some vp \<and> files w' vp = Some data \<and> data \<noteq> []
               \<and> file_size_mb r = Some (of_nat (length data) / (1024 * 1024))
               \<and> (0 :: rat) < of_nat (length data) / (1024 * 1024)))
       \<and> (\<not> success r \<longrightarrow>
            video_path r = None
            \<and> (\<exists>e w1. generate_video_try g p out img (clock w) w = (Inl e, w1)
                  \<and> error r = Some (str_exn py_repr e)
                  \<and> (\<forall>c m d. e = VideoGenerationError c m d \<and> m \<noteq> [] \<longrightarrow>
                         error r \<noteq> Some [])))"
proof -
  obtain x w1 where t: "generate_video_try g p out img (clock w) w = (x, w1)"
    by (cases "generate_video_try g p out img (clock w) w")
  show ?thesis
  proof (cases x)
    case (Inl e)
    with t run have "handle_exception py_repr e (clock w1 - clock w) = Inr r"
      by (auto simp: generate_video_async_handles)
    then obtain d where r: "r = failure_response py_repr e d (clock w1 - clock w)"
      using handle_exception_Inr by blast
    have "\<not> success r" and "video_path r = None" and "error r = Some (str_exn py_repr e)"
      unfolding r by (simp_all add: failure_response_def)
    moreover have "\<forall>c m d. e = VideoGenerationError c m d \<and> m \<noteq> [] \<longrightarrow> error r \<noteq> Some []"
      using \<open>error r = Some (str_exn py_repr e)\<close> by simp
    ultimately show ?thesis using t Inl by blast
  next
    case (Inr r0)
    with t run have same: "r0 = r" "w1 = w'"
      by (auto simp: generate_video_async_passes)
    from t Inr same have "generate_video_try g p out img (clock w) w = (Inr r, w')" by simp
    then obtain vp opn vu n w4 outp where
      d: "do_download_video g vu outp w4 = (Inr vp, w')"
      and st: "stat_size vp w' = Inr n"
      and r: "r = success_response vp opn vu n (clock w' - clock w)"
      by (rule generate_video_try_Inr)
    from d dl have "fst (download_video py_repr net base vu outp w4) = (Inr vp, w')" by simp
    then obtain data where data: "files w' vp = Some data" "data \<noteq> []"
      using download_video_returns by blast
    with st have n: "n = length data" by (simp add: stat_size_def)
    have pos: "(0 :: rat) < of_nat (length data) / (1024 * 1024)"
      using data(2) by simp
    have "success r" and "video_path r = Some vp"
      and "file_size_mb r = Some (of_nat (length data) / (1024 * 1024))"
      unfolding r n by (simp_all add: success_response_def)
    with data pos show ?thesis by blast
  qed
qed


lemma all_ok_run:
  "fst (generate_video_async generator_all_ok example_repr ''A cat playing'' None None world0)
     = Inr (success_response ''veo_video_1700000000.mp4'' ''operations/op1'' ''files/abc123''
              (length ''video-bytes'') 45)"
  by (simp add: generate_video_async_def generate_video_try_def bind_step_def return_step_def
      generator_all_ok_def generator_poll_times_out_def resolve_output_path_def
      upload_if_given_def download_video_single_attempt download_video_once_def
      download_try_def net_ok_def env_ok_def is_success_status_def verify_download_def
      path_exists_def stat_size_def world0_def Let_def)

theorem generate_video_async_outcome_witness:
  "do_download_video generator_all_ok
     = (\<lambda>uri out w. fst (download_video example_repr net_ok example_base_url uri out w))
   \<and> fst (generate_video_async generator_all_ok example_repr ''A cat playing'' None None world0)
     = Inr (success_response ''veo_video_1700000000.mp4'' ''operations/op1'' ''files/abc123''
              (length ''video-bytes'') 45)
   \<and> success (success_response ''veo_video_1700000000.mp4'' ''operations/op1''
                ''files/abc123'' (length ''video-bytes'') 45)
   \<and> (\<exists>vp data.
         video_path (success_response ''veo_video_1700000000.mp4'' ''operations/op1''
                       ''files/abc123'' (length ''video-bytes'') 45) = Some vp
         \<and> files (snd (generate_video_async generator_all_ok example_repr ''A cat playing''
                          None None world0)) vp = Some data
         \<and> data \<noteq> []
         \<and> file_size_mb (success_response ''veo_video_1700000000.mp4'' ''operations/op1''
                            ''files/abc123'' (length ''video-bytes'') 45)
             = Some (of_nat (length data) / (1024 * 1024))
         \<and> (0 :: rat) < of_nat (length data) / (1024 * 1024))"
proof -
  let ?run = "generate_video_async generator_all_ok example_repr ''A cat playing'' None None
                world0"
  let ?r = "success_response ''veo_video_1700000000.mp4'' ''operations/op1'' ''files/abc123''
              (length ''video-bytes'') 45"
  have dl: "do_download_video generator_all_ok
     = (\<lambda>uri out w. fst (download_video example_repr net_ok example_base_url uri out w))"
    by (simp add: generator_all_ok_def generator_poll_times_out_def)
  have run: "?run = (Inr ?r, snd ?run)"
    using all_ok_run by (simp add: prod_eq_iff)
  have s: "success ?r" by (simp add: success_response_def)
  from generate_video_async_outcome [OF dl run] s
  have "\<exists>vp data. video_path ?r = Some vp \<and> files (snd ?run) vp = Some data \<and> data \<noteq> []
               \<and> file_size_mb ?r = Some (of_nat (length data) / (1024 * 1024))
               \<and> (0 :: rat) < of_nat (length data) / (1024 * 1024)"
    by (elim conjE) (erule (1) mp)
  with dl all_ok_run s show ?thesis by (intro conjI)
qed

text \<open>
  C2 as stated fails in its second half: when the exception caught has an empty string,
  as a read timeout of the HTTP client raised by the submission has, the response has
  \<open>success\<close> false and \<open>error\<close> set to the empty string.
\<close>

theorem generate_video_async_empty_error_counterexample:
  "fst (generate_video_async generator_submit_read_timeout example_repr ''A cat playing''
          None None world0)
     = Inr (failure_response example_repr (RequestError []) (Some []) 30)
   \<and> success (failure_response example_repr (RequestError []) (Some []) 30) = False
   \<and> error (failure_response example_repr (RequestError []) (Some []) 30) = Some []"
  by (simp add: generate_video_async_def generate_video_try_def bind_step_def return_step_def
      generator_submit_read_timeout_def generator_poll_times_out_def resolve_output_path_def
      upload_if_given_def handle_exception_def failure_response_def world0_def Let_def)

section \<open>Properties of the batch orchestrator\<close>

lemma set_remove1_insert: "x \<in> set xs \<Longrightarrow> insert x (set (remove1 x xs)) = set xs"
  by (induction xs) auto

lemma length_remove1_mem: "x \<in> set xs \<Longrightarrow> Suc (length (remove1 x xs)) = length xs"
  by (induction xs) auto

lemma sched_inv_init: "sched_inv job n limit (sched_init n limit)"
  by (simp add: sched_inv_def sched_init_def)

lemma sched_inv_step:
  assumes "sched_step job s s'" and "sched_inv job n limit s"
  shows "sched_inv job n limit s'"
  using assms
proof (induction rule: sched_step.induct)
  case (acquire i s)
  have "set (remove1 i (waiting s)) \<union> set (i # running s) \<union> fst ` set (finished s)
        = insert i (set (remove1 i (waiting s))) \<union> set (running s) \<union> fst ` set (finished s)"
    by auto
  also have "\<dots> = set (waiting s) \<union> set (running s) \<union> fst ` set (finished s)"
    using acquire.hyps(1) by (simp add: set_remove1_insert)
  finally show ?case using acquire by (simp add: sched_inv_def)
next
  case (complete i s)
  have "set (waiting s) \<union> set (remove1 i (running s)) \<union> fst ` set (finished s @ [(i, job i)])
        = set (waiting s) \<union> insert i (set (remove1 i (running s))) \<union> fst ` set (finished s)"
    by auto
  also have "\<dots> = set (waiting s) \<union> set (running s) \<union> fst ` set (finished s)"
    using complete.hyps(1) by (simp add: set_remove1_insert)
  finally have cover: "set (waiting s) \<union> set (remove1 i (running s))
        \<union> fst ` set (finished s @ [(i, job i)])
        = set (waiting s) \<union> set (running s) \<union> fst ` set (finished s)" .
  have "Suc (length (remove1 i (running s))) = length (running s)"
    using complete.hyps(1) by (rule length_remove1_mem)
  then show ?case using complete cover by (auto simp: sched_inv_def)
qed

lemma sched_inv_reachable:
  assumes "(sched_step job)\<^sup>*\<^sup>* s s'" and "sched_inv job n limit s"
  shows "sched_inv job n limit s'"
  using assms by (induction rule: rtranclp_induct) (auto intro: sched_inv_step)

lemma first_raised_mem:
  "first_raised entries = Some e \<Longrightarrow> \<exists>i. (i, Inl e) \<in> set entries"
  by (induction entries rule: first_raised.induct) auto

lemma collect_results_Some:
  "collect_results os = Some rs \<Longrightarrow>
   length rs = length os \<and> (\<forall>k < length os. os ! k = Some (Inr (rs ! k)))"
proof (induction os arbitrary: rs rule: collect_results.induct)
  case 1
  then show ?case by simp
next
  case (2 r os)
  then obtain rs' where rs': "collect_results os = Some rs'" "rs = r # rs'" by auto
  with 2 have ih: "length rs' = length os \<and> (\<forall>k < length os. os ! k = Some (Inr (rs' ! k)))"
    by simp
  show ?case
  proof (intro conjI allI impI)
    show "length rs = length (Some (Inr r) # os)" using ih rs' by simp
    fix k assume "k < length (Some (Inr r) # os)"
    then show "(Some (Inr r) # os) ! k = Some (Inr (rs ! k))"
      using ih rs' by (cases k) simp_all
  qed
qed simp_all

lemma collect_results_all:
  "collect_results (map (\<lambda>i. Some (Inr (f i))) xs) = Some (map f xs)"
  by (induction xs) simp_all

lemma gather_Some:
  assumes "gather n entries = Some rs"
  shows "length rs = n \<and> (\<forall>i < n. map_of entries i = Some (Inr (rs ! i)))"
proof -
  from collect_results_Some [OF assms [unfolded gather_def]]
  have len: "length rs = n"
    and nth: "\<forall>k < n. map (map_of entries) [0..<n] ! k = Some (Inr (rs ! k))"
    by simp_all
  from nth have "\<forall>i < n. map_of entries i = Some (Inr (rs ! i))" by simp
  with len show ?thesis by simp
qed


lemma gather_all:
  assumes "\<forall>i < n. map_of entries i = Some (Inr (f i))"
  shows "gather n entries = Some (map f [0..<n])"
proof -
  have "map (map_of entries) [0..<n] = map (\<lambda>i. Some (Inr (f i))) [0..<n]"
    using assms by simp
  then show ?thesis unfolding gather_def by (simp only: collect_results_all)
qed

lemma sched_inv_lookup:
  assumes "sched_inv job n limit s" and "map_of (finished s) i = Some v"
  shows "v = job i"
proof -
  from assms(2) have "(i, v) \<in> set (finished s)" by (rule map_of_SomeD)
  with assms(1) show ?thesis by (auto simp: sched_inv_def)
qed

lemma sched_inv_done_lookup:
  assumes inv: "sched_inv job n limit s" and fin: "all_done s" and i: "i < n"
  shows "map_of (finished s) i = Some (job i)"
proof -
  from inv fin have "fst ` set (finished s) = {0..<n}"
    by (simp add: sched_inv_def all_done_def)
  with i have "i \<in> fst ` set (finished s)" by simp
  then obtain v where "map_of (finished s) i = Some v"
    by (metis domD dom_map_of_conv_image_fst)
  with inv show ?thesis using sched_inv_lookup by blast
qed

text \<open>With a permit to give, the scheduler can always go on until every task is done.\<close>

lemma sched_progress:
  assumes "0 < limit"
  shows "sched_inv job n limit s \<Longrightarrow> \<exists>s'. (sched_step job)\<^sup>*\<^sup>* s s' \<and> all_done s'"
proof (induction "2 * length (waiting s) + length (running s)" arbitrary: s rule: less_induct)
  case less
  show ?case
  proof (cases "running s")
    case (Cons i rest)
    let ?s1 = "s\<lparr>running := remove1 i (running s), finished := finished s @ [(i, job i)],
                  permits := Suc (permits s)\<rparr>"
    have step: "sched_step job s ?s1" by (rule sched_step.complete) (simp add: Cons)
    then have inv1: "sched_inv job n limit ?s1" using less.prems by (rule sched_inv_step)
    have "2 * length (waiting ?s1) + length (running ?s1)
          < 2 * length (waiting s) + length (running s)"
      by (simp add: Cons)
    from less.hyps [OF this inv1] obtain s' where
      "(sched_step job)\<^sup>*\<^sup>* ?s1 s'" "all_done s'" by blast
    with step show ?thesis by (meson converse_rtranclp_into_rtranclp)
  next
    case Nil
    show ?thesis
    proof (cases "waiting s")
      case empty: Nil
      with Nil have "all_done s" by (simp add: all_done_def)
      then show ?thesis by blast
    next
      case (Cons i rest)
      let ?s1 = "s\<lparr>waiting := remove1 i (waiting s), running := i # running s,
                    permits := permits s - 1\<rparr>"
      have "permits s = limit" using less.prems Nil by (simp add: sched_inv_def)
      then have step: "sched_step job s ?s1"
        using assms by (intro sched_step.acquire) (simp_all add: Cons)
      then have inv1: "sched_inv job n limit ?s1" using less.prems by (rule sched_inv_step)
      have "2 * length (waiting ?s1) + length (running ?s1)
            < 2 * length (waiting s) + length (running s)"
        by (simp add: Cons Nil)
      from less.hyps [OF this inv1] obtain s' where
        "(sched_step job)\<^sup>*\<^sup>* ?s1 s'" "all_done s'" by blast
      with step show ?thesis by (meson converse_rtranclp_into_rtranclp)
    qed
  qed
qed

lemma batch_result_counts:
  "successful (batch_result prompts rs t) + failed (batch_result prompts rs t)
     = int (length rs)"
  "total_videos (batch_result prompts rs t) = int (length prompts)"
  "results (batch_result prompts rs t) = rs"
  by (simp_all add: batch_result_def Let_def)

lemma generate_batch_sound:
  assumes "generate_batch job prompts limit t res"
  shows "case res of
           Inl e \<Rightarrow> \<exists>i < length prompts. job i = Inl e
         | Inr b \<Rightarrow>
             successful b + failed b = total_videos b
             \<and> total_videos b = int (length (results b))
             \<and> length (results b) = length prompts
             \<and> (\<forall>i < length prompts. job i = Inr (results b ! i))"
  using assms
proof (cases rule: generate_batch.cases)
  case (batch_raises s e)
  have inv: "sched_inv job (length prompts) limit s"
    using batch_raises(2) sched_inv_init by (rule sched_inv_reachable)
  from batch_raises(3) obtain i where "(i, Inl e) \<in> set (finished s)"
    using first_raised_mem by blast
  with inv have "job i = Inl e" and "i < length prompts"
    by (force simp: sched_inv_def)+
  with batch_raises(1) show ?thesis by auto
next
  case (batch_returns s rs)
  have inv: "sched_inv job (length prompts) limit s"
    using batch_returns(2) sched_inv_init by (rule sched_inv_reachable)
  from gather_Some [OF batch_returns(5)]
  have len: "length rs = length prompts"
    and nth: "\<forall>i < length prompts. map_of (finished s) i = Some (Inr (rs ! i))"
    by simp_all
  have "job i = Inr (rs ! i)" if "i < length prompts" for i
    using nth that sched_inv_lookup [OF inv] by fastforce
  with len batch_returns(1) show ?thesis by (simp add: batch_result_counts)
qed


text \<open>The scheduler has no rule that drops or cancels a task.\<close>

lemma sched_inv_covers:
  assumes "sched_inv job n limit s" and "i < n"
  shows "i \<in> set (waiting s) \<or> i \<in> set (running s) \<or> (i, job i) \<in> set (finished s)"
proof -
  from assms have "i \<in> set (waiting s) \<union> set (running s) \<union> fst ` set (finished s)"
    by (simp add: sched_inv_def)
  moreover have "(i, job i) \<in> set (finished s)" if "i \<in> fst ` set (finished s)"
  proof -
    from that obtain v where v: "(i, v) \<in> set (finished s)" by auto
    with assms(1) have "v = job i" by (auto simp: sched_inv_def)
    with v show ?thesis by simp
  qed
  ultimately show ?thesis by blast
qed

lemma sched_running_completes:
  assumes "i \<in> set (running s)"
  shows "\<exists>s'. sched_step job s s' \<and> (i, job i) \<in> set (finished s')"
proof -
  let ?s1 = "s\<lparr>running := remove1 i (running s), finished := finished s @ [(i, job i)],
                permits := Suc (permits s)\<rparr>"
  have "sched_step job s ?s1" using assms by (rule sched_step.complete)
  moreover have "(i, job i) \<in> set (finished ?s1)" by simp
  ultimately show ?thesis by blast
qed

lemma sched_no_deadlock:
  assumes inv: "sched_inv job n limit s" and pos: "0 < limit" and more: "\<not> all_done s"
  shows "\<exists>s'. sched_step job s s'"
proof (cases "running s")
  case (Cons i rest)
  then have "i \<in> set (running s)" by simp
  then show ?thesis using sched_running_completes by blast
next
  case Nil
  with more obtain i where i: "i \<in> set (waiting s)"
    by (cases "waiting s") (auto simp: all_done_def)
  from inv Nil pos have "0 < permits s" by (simp add: sched_inv_def)
  with i show ?thesis using sched_step.acquire by blast
qed

lemma sched_step_measure:
  assumes "sched_step job s s'"
  shows "2 * length (waiting s') + length (running s')
         < 2 * length (waiting s) + length (running s)"
  using assms
proof (cases rule: sched_step.cases)
  case (acquire i)
  from acquire(2) have "Suc (length (remove1 i (waiting s))) = length (waiting s)"
    by (rule length_remove1_mem)
  with acquire(1) show ?thesis by simp
next
  case (complete i)
  from complete(2) have "Suc (length (remove1 i (running s))) = length (running s)"
    by (rule length_remove1_mem)
  with complete(1) show ?thesis by simp
qed

lemma sched_step_keeps_finished:
  assumes "sched_step job s s'"
  shows "set (finished s) \<subseteq> set (finished s')"
  using assms by (cases rule: sched_step.cases) auto

lemma generate_batch_returns_when_jobs_return:
  assumes pos: "0 < limit" and returns: "\<forall>i < length prompts. \<exists>r. job i = Inr r"
  shows "\<exists>b. generate_batch job prompts limit t (Inr b)"
proof -
  let ?n = "length prompts"
  from sched_progress [OF pos sched_inv_init] obtain s' where
    reach: "(sched_step job)\<^sup>*\<^sup>* (sched_init ?n limit) s'" and fin: "all_done s'"
    by blast
  have inv: "sched_inv job ?n limit s'"
    using reach sched_inv_init by (rule sched_inv_reachable)
  have "map_of (finished s') i = Some (Inr (projr (job i)))" if "i < ?n" for i
  proof -
    from returns that have "job i = Inr (projr (job i))" by auto
    with sched_inv_done_lookup [OF inv fin that] show ?thesis by simp
  qed
  then have "gather ?n (finished s') = Some (map (\<lambda>i. projr (job i)) [0..<?n])"
    by (intro gather_all) simp
  with reach fin show ?thesis
    using generate_batch.batch_returns [of job prompts limit s'] by (auto simp: all_done_def)
qed

text \<open>
  C3. Let job \<open>i\<close> be \<^verbatim>\<open>generate_video_async\<close> on \<open>prompts[i]\<close>, with the output file
  \<open>output_dir / generate_filename(prompts[i], index=i)\<close> and the image \<open>image_paths[i]\<close>
  when there is one. Then:

  \<^item> every \<^verbatim>\<open>BatchResult\<close> that \<^verbatim>\<open>generate_batch\<close> returns has
    \<open>successful + failed = total = len(results) = len(prompts)\<close>, and \<open>results[i]\<close> is
    what job \<open>i\<close> returned, whatever the order in which the jobs completed;
  \<^item> \<^verbatim>\<open>generate_batch\<close> raises only an exception that one of the jobs itself raised;
  \<^item> no fail-fast, in every run: in every state the scheduler reaches, whatever has been
    logged so far, every job is still waiting, still running, or has completed with its
    own outcome; every running job can complete at once; with at least one permit a
    step is possible as long as a job is left; every step brings the run closer to its
    end and removes nothing from the log; so every run goes on until every job has
    completed;
  \<^item> with at least one permit, and jobs that return, a run that returns exists.
\<close>

theorem generate_batch_results_aligned:
  "(let job = generate_with_limit gens worlds py_repr prompts out_dir image_paths;
        n = length prompts
    in (generate_batch job prompts limit t (Inr b) \<longrightarrow>
          successful b + failed b = total_videos b
          \<and> total_videos b = int (length (results b))
          \<and> length (results b) = n
          \<and> successful b = int (length (filter is_success (results b)))
          \<and> (\<forall>i < n.
                fst (generate_video_async (gens i) py_repr (prompts ! i)
                       (Some (out_dir @ ''/''
                              @ do_generate_filename (gens i) (prompts ! i) (Some i) (worlds i)))
                       (case image_paths of
                          None \<Rightarrow> None
                        | Some ips \<Rightarrow> if ips \<noteq> [] \<and> i < length ips then ips ! i else None)
                       (worlds i))
                  = Inr (results b ! i)))
       \<and> (generate_batch job prompts limit t (Inl e) \<longrightarrow> (\<exists>i < n. job i = Inl e))
       \<and> ((sched_step job)\<^sup>*\<^sup>* (sched_init n limit) s \<longrightarrow>
            (\<forall>i < n. i \<in> set (waiting s) \<or> i \<in> set (running s)
                      \<or> (i, job i) \<in> set (finished s))
            \<and> (\<forall>i \<in> set (running s).
                  \<exists>s'. sched_step job s s' \<and> (i, job i) \<in> set (finished s'))
            \<and> (0 < limit \<and> \<not> all_done s \<longrightarrow> (\<exists>s'. sched_step job s s'))
            \<and> (\<forall>s'. sched_step job s s' \<longrightarrow>
                  2 * length (waiting s') + length (running s')
                    < 2 * length (waiting s) + length (running s)
                  \<and> set (finished s) \<subseteq> set (finished s'))
            \<and> (all_done s \<longrightarrow> (\<forall>i < n. (i, job i) \<in> set (finished s))))
       \<and> (0 < limit \<and> (\<forall>i < n. \<exists>r. job i = Inr r) \<longrightarrow>
            (\<exists>b'. generate_batch job prompts limit t (Inr b'))))"
proof -
  let ?job = "generate_with_limit gens worlds py_repr prompts out_dir image_paths"
  let ?n = "length prompts"
  have A: "successful b + failed b = total_videos b
          \<and> total_videos b = int (length (results b))
          \<and> length (results b) = ?n
          \<and> successful b = int (length (filter is_success (results b)))
          \<and> (\<forall>i < ?n.
                fst (generate_video_async (gens i) py_repr (prompts ! i)
                       (Some (out_dir @ ''/''
                              @ do_generate_filename (gens i) (prompts ! i) (Some i) (worlds i)))
                       (case image_paths of
                          None \<Rightarrow> None
                        | Some ips \<Rightarrow> if ips \<noteq> [] \<and> i < length ips then ips ! i else None)
                       (worlds i))
                  = Inr (results b ! i))"
    if run: "generate_batch ?job prompts limit t (Inr b)"
  proof -
    from generate_batch_sound [OF run]
    have counts: "successful b + failed b = total_videos b"
      "total_videos b = int (length (results b))" "length (results b) = ?n"
      and nth: "\<forall>i < ?n. ?job i = Inr (results b ! i)"
      by simp_all
    from run have "successful b = int (length (filter is_success (results b)))"
      by (cases rule: generate_batch.cases) (simp add: batch_result_def Let_def)
    with counts nth show ?thesis by (simp add: generate_with_limit_def Let_def)
  qed
  have B: "\<exists>i < ?n. ?job i = Inl e" if run: "generate_batch ?job prompts limit t (Inl e)"
    using generate_batch_sound [OF run] by simp
  have C: "(\<forall>i < ?n. i \<in> set (waiting s) \<or> i \<in> set (running s)
                      \<or> (i, ?job i) \<in> set (finished s))
            \<and> (\<forall>i \<in> set (running s).
                  \<exists>s'. sched_step ?job s s' \<and> (i, ?job i) \<in> set (finished s'))
            \<and> (0 < limit \<and> \<not> all_done s \<longrightarrow> (\<exists>s'. sched_step ?job s s'))
            \<and> (\<forall>s'. sched_step ?job s s' \<longrightarrow>
                  2 * length (waiting s') + length (running s')
                    < 2 * length (waiting s) + length (running s)
                  \<and> set (finished s) \<subseteq> set (finished s'))
            \<and> (all_done s \<longrightarrow> (\<forall>i < ?n. (i, ?job i) \<in> set (finished s)))"
    if reach: "(sched_step ?job)\<^sup>*\<^sup>* (sched_init ?n limit) s"
  proof -
    have inv: "sched_inv ?job ?n limit s"
      using reach sched_inv_init by (rule sched_inv_reachable)
    have c1: "\<forall>i < ?n. i \<in> set (waiting s) \<or> i \<in> set (running s)
                      \<or> (i, ?job i) \<in> set (finished s)"
      using sched_inv_covers [OF inv] by blast
    have c2: "\<forall>i \<in> set (running s).
                  \<exists>s'. sched_step ?job s s' \<and> (i, ?job i) \<in> set (finished s')"
      using sched_running_completes by blast
    have c3: "0 < limit \<and> \<not> all_done s \<longrightarrow> (\<exists>s'. sched_step ?job s s')"
      using sched_no_deadlock [OF inv] by blast
    have c4: "\<forall>s'. sched_step ?job s s' \<longrightarrow>
                  2 * length (waiting s') + length (running s')
                    < 2 * length (waiting s) + length (running s)
                  \<and> set (finished s) \<subseteq> set (finished s')"
      using sched_step_measure sched_step_keeps_finished by blast
    have c5: "all_done s \<longrightarrow> (\<forall>i < ?n. (i, ?job i) \<in> set (finished s))"
      using c1 by (auto simp: all_done_def)
    from c1 c2 c3 c4 c5 show ?thesis by (intro conjI)
  qed
  have D: "\<exists>b'. generate_batch ?job prompts limit t (Inr b')"
    if "0 < limit \<and> (\<forall>i < ?n. \<exists>r. ?job i = Inr r)"
    using that generate_batch_returns_when_jobs_return by blast
  show ?thesis unfolding Let_def
    by (rule conjI, rule impI, erule A, rule conjI, rule impI, erule B,
        rule conjI, rule impI, erule C, rule impI, erule D)
qed

lemma example_job_outcomes:
  "example_job 0 = Inr example_timeout_response"
  "example_job (Suc 0) = Inr example_ok_response"
  by (simp_all add: example_job_def generate_with_limit_def example_gens_def example_worlds_def
      example_prompts_def example_timeout_response_def example_ok_response_def
      generate_video_async_def generate_video_try_def bind_step_def return_step_def
      generator_all_ok_def generator_poll_times_out_def resolve_output_path_def
      upload_if_given_def download_video_single_attempt download_video_once_def
      download_try_def net_ok_def env_ok_def is_success_status_def verify_download_def
      path_exists_def stat_size_def world0_def Let_def str_nat.simps
      handle_exception_def TimeoutError_def)

lemma example_batch_run:
  "generate_batch example_job example_prompts 2 50
     (Inr (batch_result example_prompts [example_timeout_response, example_ok_response] 50))"
proof -
  let ?s0 = "\<lparr>waiting = [0, Suc 0], running = [], finished = [], permits = 2\<rparr>"
  let ?s1 = "\<lparr>waiting = [Suc 0], running = [0], finished = [], permits = 1\<rparr>"
  let ?s2 = "\<lparr>waiting = [], running = [Suc 0, 0], finished = [], permits = 0\<rparr>"
  let ?s3 = "\<lparr>waiting = [], running = [0],
               finished = [(Suc 0, example_job (Suc 0))], permits = 1\<rparr>"
  let ?s4 = "\<lparr>waiting = [], running = [],
               finished = [(Suc 0, example_job (Suc 0)), (0, example_job 0)], permits = 2\<rparr>"
  have init: "sched_init (length example_prompts) 2 = ?s0"
    by (simp add: sched_init_def example_prompts_def upt_rec)
  have a: "sched_step example_job ?s0 ?s1"
    using sched_step.acquire [of 0 ?s0 example_job] by simp
  have b: "sched_step example_job ?s1 ?s2"
    using sched_step.acquire [of "Suc 0" ?s1 example_job] by simp
  have c: "sched_step example_job ?s2 ?s3"
    using sched_step.complete [of "Suc 0" ?s2 example_job] by simp
  have d: "sched_step example_job ?s3 ?s4"
    using sched_step.complete [of 0 ?s3 example_job] by (simp add: numeral_2_eq_2)
  have reach: "(sched_step example_job)\<^sup>*\<^sup>* (sched_init (length example_prompts) 2) ?s4"
    unfolding init using a b c d by (meson rtranclp.rtrancl_into_rtrancl rtranclp.rtrancl_refl)
  have g: "gather (length example_prompts) (finished ?s4)
             = Some [example_timeout_response, example_ok_response]"
    by (simp add: gather_def example_prompts_def upt_rec example_job_outcomes)
  from generate_batch.batch_returns [OF reach _ _ g, of 50] show ?thesis by simp
qed

text \<open>A run in which the job that fails is the first to complete.\<close>

lemma example_failure_first_run:
  "(sched_step example_job)\<^sup>*\<^sup>* (sched_init (length example_prompts) 2)
     \<lparr>waiting = [], running = [Suc 0], finished = [(0, example_job 0)], permits = 1\<rparr>"
proof -
  let ?s0 = "\<lparr>waiting = [0, Suc 0], running = [], finished = [], permits = 2\<rparr>"
  let ?s1 = "\<lparr>waiting = [Suc 0], running = [0], finished = [], permits = 1\<rparr>"
  let ?s2 = "\<lparr>waiting = [], running = [Suc 0, 0], finished = [], permits = 0\<rparr>"
  let ?s3 = "\<lparr>waiting = [], running = [Suc 0],
               finished = [(0, example_job 0)], permits = 1\<rparr>"
  have init: "sched_init (length example_prompts) 2 = ?s0"
    by (simp add: sched_init_def example_prompts_def upt_rec)
  have a: "sched_step example_job ?s0 ?s1"
    using sched_step.acquire [of 0 ?s0 example_job] by simp
  have b: "sched_step example_job ?s1 ?s2"
    using sched_step.acquire [of "Suc 0" ?s1 example_job] by simp
  have c: "sched_step example_job ?s2 ?s3"
    using sched_step.complete [of 0 ?s2 example_job] by simp
  show ?thesis
    unfolding init using a b c by (meson rtranclp.rtrancl_into_rtrancl rtranclp.rtrancl_refl)
qed

theorem generate_batch_results_aligned_witness:
  "generate_batch
     (generate_with_limit example_gens example_worlds example_repr example_prompts ''out'' None)
     example_prompts 2 50
     (Inr (batch_result example_prompts [example_timeout_response, example_ok_response] 50))
   \<and> successful (batch_result example_prompts [example_timeout_response, example_ok_response] 50)
       = 1
   \<and> failed (batch_result example_prompts [example_timeout_response, example_ok_response] 50)
       = 1
   \<and> total_videos (batch_result example_prompts [example_timeout_response, example_ok_response] 50)
       = 2
   \<and> fst (generate_video_async (example_gens 0) example_repr ''cat''
             (Some (''out'' @ ''/''
                    @ do_generate_filename (example_gens 0) ''cat'' (Some 0) (example_worlds 0)))
             None (example_worlds 0))
       = Inr (results (batch_result example_prompts
                         [example_timeout_response, example_ok_response] 50) ! 0)
   \<and> fst (generate_video_async (example_gens (Suc 0)) example_repr ''dog''
             (Some (''out'' @ ''/''
                    @ do_generate_filename (example_gens (Suc 0)) ''dog'' (Some (Suc 0))
                        (example_worlds (Suc 0))))
             None (example_worlds (Suc 0)))
       = Inr (results (batch_result example_prompts
                         [example_timeout_response, example_ok_response] 50) ! Suc 0)
   \<and> \<not> is_success example_timeout_response \<and> is_success example_ok_response
   \<and> (\<exists>s'. sched_step
               (generate_with_limit example_gens example_worlds example_repr example_prompts
                  ''out'' None)
               \<lparr>waiting = [], running = [Suc 0], finished = [(0, Inr example_timeout_response)],
                  permits = 1\<rparr> s'
             \<and> (Suc 0, Inr example_ok_response) \<in> set (finished s'))"
proof -
  let ?job = "generate_with_limit example_gens example_worlds example_repr example_prompts
                ''out'' None"
  let ?b = "batch_result example_prompts [example_timeout_response, example_ok_response] 50"
  let ?s = "\<lparr>waiting = [], running = [Suc 0], finished = [(0, example_job 0)],
              permits = 1\<rparr>"
  have run: "generate_batch ?job example_prompts 2 50 (Inr ?b)"
    using example_batch_run by (simp add: example_job_def)
  have reach: "(sched_step ?job)\<^sup>*\<^sup>* (sched_init (length example_prompts) 2) ?s"
    using example_failure_first_run by (simp add: example_job_def)
  note inst = generate_batch_results_aligned
         [where gens = example_gens and worlds = example_worlds and py_repr = example_repr
            and prompts = example_prompts and out_dir = "''out''" and image_paths = None
            and limit = 2 and t = 50 and b = ?b and s = ?s, unfolded Let_def]
  note ex = mp [OF conjunct1 [OF inst] run]
  from ex have aligned: "\<forall>i < length example_prompts.
      fst (generate_video_async (example_gens i) example_repr (example_prompts ! i)
             (Some (''out'' @ ''/''
                    @ do_generate_filename (example_gens i) (example_prompts ! i) (Some i)
                        (example_worlds i)))
             None (example_worlds i))
        = Inr (results ?b ! i)"
    by simp
  have two: "length example_prompts = 2" "example_prompts ! 0 = ''cat''"
    "example_prompts ! Suc 0 = ''dog''"
    by (simp_all add: example_prompts_def)
  from aligned [rule_format, of 0] have j0:
    "fst (generate_video_async (example_gens 0) example_repr ''cat''
             (Some (''out'' @ ''/''
                    @ do_generate_filename (example_gens 0) ''cat'' (Some 0) (example_worlds 0)))
             None (example_worlds 0))
       = Inr (results ?b ! 0)"
    by (simp add: two)
  from aligned [rule_format, of "Suc 0"] have j1:
    "fst (generate_video_async (example_gens (Suc 0)) example_repr ''dog''
             (Some (''out'' @ ''/''
                    @ do_generate_filename (example_gens (Suc 0)) ''dog'' (Some (Suc 0))
                        (example_worlds (Suc 0))))
             None (example_worlds (Suc 0)))
       = Inr (results ?b ! Suc 0)"
    by (simp add: two)
  note runs = mp [OF conjunct1 [OF conjunct2 [OF conjunct2 [OF inst]]] reach]
  from runs have "\<forall>i \<in> set (running ?s).
      \<exists>s'. sched_step ?job ?s s' \<and> (i, ?job i) \<in> set (finished s')"
    by (elim conjE)
  then have "\<exists>s'. sched_step ?job ?s s' \<and> (Suc 0, ?job (Suc 0)) \<in> set (finished s')"
    by simp
  then have nff: "\<exists>s'. sched_step ?job
               \<lparr>waiting = [], running = [Suc 0], finished = [(0, Inr example_timeout_response)],
                  permits = 1\<rparr> s'
             \<and> (Suc 0, Inr example_ok_response) \<in> set (finished s')"
    using example_job_outcomes by (simp add: example_job_def)
  have s: "\<not> is_success example_timeout_response" "is_success example_ok_response"
    by (simp_all add: is_success_def example_timeout_response_def example_ok_response_def
        failure_response_def success_response_def)
  have counts: "successful ?b = 1" "failed ?b = 1" "total_videos ?b = 2"
    using s by (simp_all add: batch_result_def Let_def example_prompts_def)
  from run counts j0 j1 s nff show ?thesis by (intro conjI)
qed

end
